theory Spec2Isabelle
  imports Main
begin

section \<open>Python values\<close>

text \<open>
  The crawler handles decoded JSON: \<open>None\<close>, booleans, integers, strings, lists and
  dictionaries with string keys. A dictionary is an association list in insertion order,
  as Python keeps it. Floating-point numbers are outside the model.
\<close>

datatype json =
    JNull
  | JBool bool
  | JInt int
  | JStr string
  | JList "json list"
  | JDict "(string \<times> json) list"

datatype py_error =
    ValueError string
  | AttributeError
  | TypeError
  | KeyboardInterrupt
  | StopIteration

datatype 'a result = Ok 'a | Raise py_error

text \<open>Truth value of an object, as \<open>if x\<close>, \<open>not x\<close>, \<open>x or y\<close> test it.\<close>

fun truthy :: "json \<Rightarrow> bool" where
  "truthy JNull = False"
| "truthy (JBool b) = b"
| "truthy (JInt n) = (n \<noteq> 0)"
| "truthy (JStr s) = (s \<noteq> [])"
| "truthy (JList xs) = (xs \<noteq> [])"
| "truthy (JDict kvs) = (kvs \<noteq> [])"

definition py_or :: "json \<Rightarrow> json \<Rightarrow> json" where
  "py_or a b = (if truthy a then a else b)"

definition is_dict :: "json \<Rightarrow> bool" where
  "is_dict v = (case v of JDict _ \<Rightarrow> True | _ \<Rightarrow> False)"

definition is_list :: "json \<Rightarrow> bool" where
  "is_list v = (case v of JList _ \<Rightarrow> True | _ \<Rightarrow> False)"

text \<open>\<open>d.get(k)\<close> and \<open>d.get(k, default)\<close> on a dictionary; \<open>d[k] = v\<close> keeps the place
  of a key that is present and appends a new one.\<close>

definition dict_get_default :: "(string \<times> json) list \<Rightarrow> string \<Rightarrow> json \<Rightarrow> json" where
  "dict_get_default kvs k d = (case map_of kvs k of None \<Rightarrow> d | Some v \<Rightarrow> v)"

definition dict_get :: "(string \<times> json) list \<Rightarrow> string \<Rightarrow> json" where
  "dict_get kvs k = dict_get_default kvs k JNull"

fun dict_set :: "(string \<times> json) list \<Rightarrow> string \<Rightarrow> json \<Rightarrow> (string \<times> json) list" where
  "dict_set [] k v = [(k, v)]"
| "dict_set ((k', v') # kvs) k v =
     (if k' = k then (k, v) # kvs else (k', v') # dict_set kvs k v)"

text \<open>\<open>x.get(k)\<close> on an object of unknown type: only a dictionary has the method.\<close>

definition py_get_default :: "json \<Rightarrow> string \<Rightarrow> json \<Rightarrow> json result" where
  "py_get_default x k d =
     (case x of JDict kvs \<Rightarrow> Ok (dict_get_default kvs k d) | _ \<Rightarrow> Raise AttributeError)"

definition py_get :: "json \<Rightarrow> string \<Rightarrow> json result" where
  "py_get x k = py_get_default x k JNull"

subsection \<open>Strings\<close>

definition starts_with :: "string \<Rightarrow> string \<Rightarrow> bool" where
  "starts_with p s = (take (length p) s = p)"

definition ends_with :: "string \<Rightarrow> string \<Rightarrow> bool" where
  "ends_with p s = (length p \<le> length s \<and> drop (length s - length p) s = p)"

text \<open>\<open>p in s\<close> for strings.\<close>

fun contains :: "string \<Rightarrow> string \<Rightarrow> bool" where
  "contains p [] = (p = [])"
| "contains p (c # cs) = (starts_with p (c # cs) \<or> contains p cs)"

text \<open>\<open>s.replace(old, new)\<close> for a non-empty \<open>old\<close>: every occurrence, left to right,
  without overlap.\<close>

fun py_replace :: "string \<Rightarrow> string \<Rightarrow> string \<Rightarrow> string" where
  "py_replace old new [] = []"
| "py_replace old new (c # cs) =
     (if old \<noteq> [] \<and> starts_with old (c # cs)
      then new @ py_replace old new (drop (length old) (c # cs))
      else c # py_replace old new cs)"

fun str_join :: "string \<Rightarrow> string list \<Rightarrow> string" where
  "str_join sep [] = []"
| "str_join sep [x] = x"
| "str_join sep (x # y # ys) = x @ sep @ str_join sep (y # ys)"

subsection \<open>\<open>str\<close> and \<open>repr\<close>\<close>

definition digit_char :: "nat \<Rightarrow> char" where
  "digit_char d = ''0123456789'' ! d"

fun digits :: "nat \<Rightarrow> string" where
  "digits n = (if n < 10 then [digit_char n] else digits (n div 10) @ [digit_char (n mod 10)])"

declare digits.simps [simp del]

definition str_int :: "int \<Rightarrow> string" where
  "str_int i = (if i < 0 then CHR ''-'' # digits (nat (- i)) else digits (nat i))"

definition hex_digit :: "nat \<Rightarrow> char" where
  "hex_digit d = ''0123456789abcdef'' ! d"

text \<open>\<open>repr\<close> of a string whose characters are code points below 256: the quote is
  \<open>'\<close> unless the string holds a \<open>'\<close> and no \<open>"\<close>; the quote and the backslash are
  escaped, as are the characters that are not printable.\<close>

definition repr_char :: "char \<Rightarrow> char \<Rightarrow> string" where
  "repr_char q c =
     (let n = (of_char c :: nat) in
      if c = q \<or> c = CHR 0x5C then [CHR 0x5C, c]
      else if c = CHR 0x09 then [CHR 0x5C, CHR ''t'']
      else if c = CHR 0x0A then [CHR 0x5C, CHR ''n'']
      else if c = CHR 0x0D then [CHR 0x5C, CHR ''r'']
      else if n < 32 \<or> (127 \<le> n \<and> n \<le> 160) \<or> n = 173
        then [CHR 0x5C, CHR ''x'', hex_digit (n div 16), hex_digit (n mod 16)]
      else [c])"

definition repr_str :: "string \<Rightarrow> string" where
  "repr_str s =
     (let q = (if CHR 0x27 \<in> set s \<and> CHR 0x22 \<notin> set s then CHR 0x22 else CHR 0x27)
      in [q] @ concat (map (repr_char q) s) @ [q])"

fun py_repr :: "json \<Rightarrow> string" where
  "py_repr JNull = ''None''"
| "py_repr (JBool b) = (if b then ''True'' else ''False'')"
| "py_repr (JInt i) = str_int i"
| "py_repr (JStr s) = repr_str s"
| "py_repr (JList xs) = ''['' @ str_join '', '' (map py_repr xs) @ '']''"
| "py_repr (JDict kvs) =
     ''{'' @ str_join '', '' (map (\<lambda>kv. repr_str (fst kv) @ '': '' @ py_repr (snd kv)) kvs) @ ''}''"

definition py_str :: "json \<Rightarrow> string" where
  "py_str v = (case v of JStr s \<Rightarrow> s | _ \<Rightarrow> py_repr v)"

section \<open>Template renderer\<close>

text \<open>\<open>re.search(r"\{[a-zA-Z0-9_]+\}", s)\<close>: a brace, a non-empty run of word characters,
  a closing brace. The run is greedy and a closing brace is no word character, so the
  longest run decides.\<close>

definition word_char :: "char \<Rightarrow> bool" where
  "word_char c =
     (c \<in> set ''abcdefghijklmnopqrstuvwxyzABCDEFGHIJKLMNOPQRSTUVWXYZ0123456789_'')"

fun has_placeholder :: "string \<Rightarrow> bool" where
  "has_placeholder [] = False"
| "has_placeholder (c # cs) =
     ((c = CHR ''{'' \<and> takeWhile word_char cs \<noteq> []
         \<and> starts_with ''}'' (dropWhile word_char cs))
      \<or> has_placeholder cs)"

text \<open>The loop over \<open>variables.items()\<close> of a string template; \<open>None\<close> is the early
  \<open>return None\<close> on a placeholder bound to \<open>None\<close>.\<close>

fun substitute :: "(string \<times> json) list \<Rightarrow> string \<Rightarrow> string option" where
  "substitute [] val = Some val"
| "substitute ((key, replacement) # rest) val =
     (let placeholder = ''{'' @ key @ ''}'' in
      if contains placeholder val
      then (if replacement = JNull then None
            else substitute rest (py_replace placeholder (py_str replacement) val))
      else substitute rest val)"

text \<open>\<open>render_template\<close>; the result \<open>JNull\<close> is Python's \<open>None\<close>, which a container
  leaves out.\<close>

fun render_template :: "json \<Rightarrow> (string \<times> json) list \<Rightarrow> json" where
  "render_template (JStr s) variables =
     (case substitute variables s of
        None \<Rightarrow> JNull
      | Some val \<Rightarrow> if has_placeholder val then JNull else JStr val)"
| "render_template (JDict kvs) variables =
     JDict (fold (\<lambda>kv rendered.
                    let rv = render_template (snd kv) variables
                    in if rv \<noteq> JNull then dict_set rendered (fst kv) rv else rendered)
                 kvs [])"
| "render_template (JList xs) variables =
     JList (filter (\<lambda>rv. rv \<noteq> JNull) (map (\<lambda>item. render_template item variables) xs))"
| "render_template v variables = v"

text \<open>What the rendered structure must look like: no string value with a placeholder left,
  and no \<open>None\<close> standing in a mapping or a sequence for a dropped value.\<close>

fun dropping_safe :: "json \<Rightarrow> bool" where
  "dropping_safe (JStr s) = (\<not> has_placeholder s)"
| "dropping_safe (JList xs) = list_all (\<lambda>x. x \<noteq> JNull \<and> dropping_safe x) xs"
| "dropping_safe (JDict kvs) = list_all (\<lambda>kv. snd kv \<noteq> JNull \<and> dropping_safe (snd kv)) kvs"
| "dropping_safe v = True"

section \<open>Response navigator and small helpers\<close>

text \<open>Equality as Python's \<open>==\<close> decides it on decoded JSON: \<open>True\<close> and \<open>False\<close> are the
  integers 1 and 0, dictionaries compare without regard to order.\<close>

fun py_eq :: "json \<Rightarrow> json \<Rightarrow> bool"
  and py_eq_list :: "json list \<Rightarrow> json list \<Rightarrow> bool"
  and py_eq_items :: "(string \<times> json) list \<Rightarrow> (string \<times> json) list \<Rightarrow> bool" where
  "py_eq JNull b = (b = JNull)"
| "py_eq (JStr s) b = (b = JStr s)"
| "py_eq (JBool x) b =
     (case b of JBool y \<Rightarrow> x = y | JInt n \<Rightarrow> n = (if x then 1 else 0) | _ \<Rightarrow> False)"
| "py_eq (JInt m) b =
     (case b of JBool y \<Rightarrow> m = (if y then 1 else 0) | JInt n \<Rightarrow> m = n | _ \<Rightarrow> False)"
| "py_eq (JList xs) b = (case b of JList ys \<Rightarrow> py_eq_list xs ys | _ \<Rightarrow> False)"
| "py_eq (JDict kvs) b =
     (case b of JDict kws \<Rightarrow> length kvs = length kws \<and> py_eq_items kvs kws | _ \<Rightarrow> False)"
| "py_eq_list [] ys = (ys = [])"
| "py_eq_list (x # xs) ys = (case ys of [] \<Rightarrow> False | y # ys' \<Rightarrow> py_eq x y \<and> py_eq_list xs ys')"
| "py_eq_items [] kws = True"
| "py_eq_items (kv # kvs) kws =
     (case map_of kws (fst kv) of
        None \<Rightarrow> False
      | Some w \<Rightarrow> py_eq (snd kv) w \<and> py_eq_items kvs kws)"

datatype path_key = Key string | Index int

text \<open>\<open>deep_get\<close>: a key missing on the way gives \<open>None\<close>.\<close>

fun deep_get :: "json \<Rightarrow> path_key list \<Rightarrow> json" where
  "deep_get cur [] = cur"
| "deep_get (JDict kvs) (Key k # path) =
     (case map_of kvs k of Some v \<Rightarrow> deep_get v path | None \<Rightarrow> JNull)"
| "deep_get (JList xs) (Index i # path) =
     (if 0 \<le> i \<and> i < int (length xs) then deep_get (xs ! nat i) path else JNull)"
| "deep_get cur (key # path) = JNull"

fun pick_first_path :: "json \<Rightarrow> path_key list list \<Rightarrow> json" where
  "pick_first_path data [] = JNull"
| "pick_first_path data (path # paths) =
     (let val = deep_get data path in if val \<noteq> JNull then val else pick_first_path data paths)"

fun first_with_suffix :: "(string \<times> json) list \<Rightarrow> string list \<Rightarrow> json" where
  "first_with_suffix [] suffixes = JNull"
| "first_with_suffix ((key, val) # items) suffixes =
     (if is_dict val \<and> list_ex (\<lambda>suffix. ends_with suffix key) suffixes then val
      else first_with_suffix items suffixes)"

definition find_connection_in_data :: "json \<Rightarrow> string list \<Rightarrow> json result" where
  "find_connection_in_data payload suffixes =
     (case py_get payload ''data'' of
        Raise e \<Rightarrow> Raise e
      | Ok (JDict data) \<Rightarrow> Ok (first_with_suffix data suffixes)
      | Ok _ \<Rightarrow> Ok JNull)"

text \<open>The three values a connection yields: edges, page\_info, count.\<close>

definition connection_parts :: "(string \<times> json) list \<Rightarrow> json \<times> json \<times> json" where
  "connection_parts connection =
     (dict_get_default connection ''edges'' (JList []),
      dict_get_default connection ''page_info'' (JDict []),
      dict_get connection ''count'')"

fun first_connection :: "json \<Rightarrow> path_key list list \<Rightarrow> (string \<times> json) list option" where
  "first_connection payload [] = None"
| "first_connection payload (path # candidates) =
     (case deep_get payload path of
        JDict connection \<Rightarrow>
          if connection \<noteq> [] then Some connection else first_connection payload candidates
      | _ \<Rightarrow> first_connection payload candidates)"

definition suffix_connection :: "json \<Rightarrow> string list \<Rightarrow> (json \<times> json \<times> json) option result" where
  "suffix_connection payload suffixes =
     (case find_connection_in_data payload suffixes of
        Raise e \<Rightarrow> Raise e
      | Ok (JDict connection) \<Rightarrow>
          if connection \<noteq> [] then Ok (Some (connection_parts connection)) else Ok None
      | Ok _ \<Rightarrow> Ok None)"

definition extract_comment_connection :: "json \<Rightarrow> (json \<times> json \<times> json) result" where
  "extract_comment_connection payload =
     (case first_connection payload
        [[Key ''data'', Key ''xdt_api__v1__media__media_id__comments__connection''],
         [Key ''data'', Key ''xdt_shortcode_media'', Key ''edge_media_to_parent_comment''],
         [Key ''data'', Key ''shortcode_media'', Key ''edge_media_to_parent_comment''],
         [Key ''data'', Key ''xdt_shortcode_media'', Key ''edge_media_to_comment''],
         [Key ''data'', Key ''shortcode_media'', Key ''edge_media_to_comment'']] of
        Some connection \<Rightarrow> Ok (connection_parts connection)
      | None \<Rightarrow>
          (case suffix_connection payload [''__comments__connection''] of
             Raise e \<Rightarrow> Raise e
           | Ok (Some parts) \<Rightarrow> Ok parts
           | Ok None \<Rightarrow> Ok (JList [], JDict [], JNull)))"

definition extract_reply_connection :: "json \<Rightarrow> (json \<times> json \<times> json) result" where
  "extract_reply_connection payload =
     (case first_connection payload
        [[Key ''data'', Key ''comment'', Key ''edge_threaded_comments''],
         [Key ''data'', Key ''comment'', Key ''edge_media_to_parent_comment''],
         [Key ''data'', Key ''comment'', Key ''edge_media_to_comment'']] of
        Some connection \<Rightarrow> Ok (connection_parts connection)
      | None \<Rightarrow>
          (case suffix_connection payload
                  [''__replies__connection'', ''__comments__replies__connection''] of
             Raise e \<Rightarrow> Raise e
           | Ok (Some parts) \<Rightarrow> Ok parts
           | Ok None \<Rightarrow>
               (case suffix_connection payload [''__child_comments__connection''] of
                  Raise e \<Rightarrow> Raise e
                | Ok (Some parts) \<Rightarrow> Ok parts
                | Ok None \<Rightarrow> extract_comment_connection payload)))"

section \<open>Configuration and the outside world\<close>

text \<open>An endpoint descriptor of the configuration file. \<open>ep_url\<close>, \<open>ep_doc_id\<close> and
  \<open>ep_query_hash\<close> are \<open>JNull\<close> when the key is missing, \<open>ep_method\<close> and \<open>ep_type\<close> are
  \<open>None\<close> when it is missing (the code then takes \<open>POST\<close> and \<open>graphql\<close>), \<open>ep_params\<close> and
  \<open>ep_variables\<close> are empty when it is missing.\<close>

record endpoint =
  ep_url :: json
  ep_method :: "string option"
  ep_type :: "string option"
  ep_doc_id :: json
  ep_query_hash :: json
  ep_params :: "(string \<times> json) list"
  ep_variables :: "(string \<times> json) list"

text \<open>The settings the crawler reads. An endpoint is \<open>None\<close> when the configuration has
  no entry for it or an empty one (\<open>not endpoint\<close>). Delays are whole, non-negative numbers
  of seconds; \<open>data_dir\<close> is the data directory as \<open>pathlib\<close> prints it. The settings of the rate limiter and of the raw-response directory are left
  out: the model has no wall clock between requests and no raw-response directory.\<close>

record config =
  data_dir :: string
  retry_attempts :: int
  retry_delay :: nat
  max_comments :: "int option"
  fetch_replies :: bool
  resume_by_default :: bool
  comments_first :: int
  replies_first :: int
  page_retry_attempts :: int
  page_retry_delay :: nat
  endpoints_post_by_shortcode :: "endpoint option"
  endpoints_comments :: "endpoint option"
  endpoints_comment_replies :: "endpoint option"

text \<open>What one physical request meets: an exception of the transport, an interrupt of the
  user while it is in flight, or a response with its status, its text and the value of
  \<open>response.json()\<close> (\<open>None\<close> when the text is not JSON).\<close>

datatype outcome =
    TransportError
  | Interrupt
  | Response int string "json option"

datatype stored = Document json | Unparseable string

datatype fs_event = Written string json | Unlinked string

type_synonym request = "string \<times> json \<times> (string \<times> json) list \<times> (string \<times> json) list"

text \<open>The world: the outcomes the network will deliver, in order (after the last one every
  request fails in the transport); the requests sent and the sleeps taken so far; the files
  by path, with the trace of writes and deletions; the clock, read by
  \<open>datetime.utcnow()\<close> as seconds since the epoch and microseconds.\<close>

record world =
  script :: "outcome list"
  sent :: "request list"
  sleeps :: "nat list"
  files :: "(string \<times> stored) list"
  fs_log :: "fs_event list"
  utcnow :: "nat \<Rightarrow> int \<times> nat"
  ticks :: nat

definition sleep :: "nat \<Rightarrow> world \<Rightarrow> world" where
  "sleep seconds w = w\<lparr>sleeps := sleeps w @ [seconds]\<rparr>"

definition session_request :: "request \<Rightarrow> world \<Rightarrow> outcome \<times> world" where
  "session_request req w =
     (case script w of
        [] \<Rightarrow> (TransportError, w\<lparr>sent := sent w @ [req]\<rparr>)
      | out # rest \<Rightarrow> (out, w\<lparr>script := rest, sent := sent w @ [req]\<rparr>))"

definition read_clock :: "world \<Rightarrow> (int \<times> nat) \<times> world" where
  "read_clock w = (utcnow w (ticks w), w\<lparr>ticks := Suc (ticks w)\<rparr>)"

fun file_put :: "(string \<times> stored) list \<Rightarrow> string \<Rightarrow> stored \<Rightarrow> (string \<times> stored) list" where
  "file_put [] p f = [(p, f)]"
| "file_put ((p', f') # fs) p f = (if p' = p then (p, f) # fs else (p', f') # file_put fs p f)"

definition write_text :: "string \<Rightarrow> json \<Rightarrow> world \<Rightarrow> world" where
  "write_text path doc w =
     w\<lparr>files := file_put (files w) path (Document doc), fs_log := fs_log w @ [Written path doc]\<rparr>"

definition unlink :: "string \<Rightarrow> world \<Rightarrow> world" where
  "unlink path w =
     w\<lparr>files := filter (\<lambda>pf. fst pf \<noteq> path) (files w), fs_log := fs_log w @ [Unlinked path]\<rparr>"

definition path_exists :: "world \<Rightarrow> string \<Rightarrow> bool" where
  "path_exists w path = (map_of (files w) path \<noteq> None)"

subsection \<open>Dates\<close>

text \<open>\<open>datetime.utcfromtimestamp(t)\<close>: the day \<open>t div 86400\<close> after 1970-01-01 in the
  proleptic Gregorian calendar, and the time of day.\<close>

definition civil_from_days :: "int \<Rightarrow> int \<times> int \<times> int" where
  "civil_from_days days =
     (let z = days + 719468;
          era = z div 146097;
          doe = z - era * 146097;
          yoe = (doe - doe div 1460 + doe div 36524 - doe div 146096) div 365;
          doy = doe - (365 * yoe + yoe div 4 - yoe div 100);
          mp = (5 * doy + 2) div 153;
          d = doy - (153 * mp + 2) div 5 + 1;
          m = (if mp < 10 then mp + 3 else mp - 9);
          y = yoe + era * 400
      in (if m \<le> 2 then y + 1 else y, m, d))"

definition pad :: "nat \<Rightarrow> int \<Rightarrow> string" where
  "pad width n = replicate (width - length (digits (nat n))) CHR ''0'' @ digits (nat n)"

text \<open>\<open>isoformat()\<close>, with the microseconds when they are not zero.\<close>

definition isoformat :: "int \<times> nat \<Rightarrow> string" where
  "isoformat t =
     (case civil_from_days (fst t div 86400) of
        (y, m, d) \<Rightarrow>
          (let secs = fst t mod 86400 in
           pad 4 y @ ''-'' @ pad 2 m @ ''-'' @ pad 2 d @ ''T'' @ pad 2 (secs div 3600) @ '':''
             @ pad 2 (secs mod 3600 div 60) @ '':'' @ pad 2 (secs mod 60)
             @ (if snd t = 0 then [] else ''.'' @ pad 6 (int (snd t)))))"

text \<open>\<open>strftime("%Y%m%d_%H%M%S")\<close>.\<close>

definition file_stamp :: "int \<times> nat \<Rightarrow> string" where
  "file_stamp t =
     (case civil_from_days (fst t div 86400) of
        (y, m, d) \<Rightarrow>
          (let secs = fst t mod 86400 in
           pad 4 y @ pad 2 m @ pad 2 d @ ''_'' @ pad 2 (secs div 3600)
             @ pad 2 (secs mod 3600 div 60) @ pad 2 (secs mod 60)))"

text \<open>\<open>parse_timestamp\<close>. A boolean is an integer for \<open>isinstance\<close>. Outside the years 1 to
  9999 \<open>utcfromtimestamp\<close> raises (a ValueError or an OverflowError, by magnitude; the model
  has the one).\<close>

definition parse_timestamp :: "json \<Rightarrow> json result" where
  "parse_timestamp val =
     (case val of
        JNull \<Rightarrow> Ok JNull
      | JInt t \<Rightarrow>
          if - 62135596800 \<le> t \<and> t \<le> 253402300799 then Ok (JStr (isoformat (t, 0) @ ''Z''))
          else Raise (ValueError ''year is out of range'')
      | JBool b \<Rightarrow> Ok (JStr (isoformat (if b then 1 else 0, 0) @ ''Z''))
      | JStr s \<Rightarrow> Ok (JStr s)
      | _ \<Rightarrow> Ok JNull)"

section \<open>Request executor\<close>

text \<open>\<open>json.dumps(v, separators=(",", ":"), ensure_ascii=False)\<close>.\<close>

definition json_escape_char :: "char \<Rightarrow> string" where
  "json_escape_char c =
     (let n = (of_char c :: nat) in
      if c = CHR 0x22 then [CHR 0x5C, CHR 0x22]
      else if c = CHR 0x5C then [CHR 0x5C, CHR 0x5C]
      else if c = CHR 0x0A then [CHR 0x5C, CHR ''n'']
      else if c = CHR 0x0D then [CHR 0x5C, CHR ''r'']
      else if c = CHR 0x09 then [CHR 0x5C, CHR ''t'']
      else if c = CHR 0x08 then [CHR 0x5C, CHR ''b'']
      else if c = CHR 0x0C then [CHR 0x5C, CHR ''f'']
      else if n < 32 then [CHR 0x5C, CHR ''u'', CHR ''0'', CHR ''0'', hex_digit (n div 16), hex_digit (n mod 16)]
      else [c])"

definition json_string :: "string \<Rightarrow> string" where
  "json_string s = [CHR 0x22] @ concat (map json_escape_char s) @ [CHR 0x22]"

fun json_dumps :: "json \<Rightarrow> string" where
  "json_dumps JNull = ''null''"
| "json_dumps (JBool b) = (if b then ''true'' else ''false'')"
| "json_dumps (JInt i) = str_int i"
| "json_dumps (JStr s) = json_string s"
| "json_dumps (JList xs) = ''['' @ str_join '','' (map json_dumps xs) @ '']''"
| "json_dumps (JDict kvs) =
     ''{'' @ str_join '','' (map (\<lambda>kv. json_string (fst kv) @ '':'' @ json_dumps (snd kv)) kvs) @ ''}''"

text \<open>\<open>d.update(other)\<close> for two dictionaries.\<close>

definition dict_update :: "(string \<times> json) list \<Rightarrow> (string \<times> json) list \<Rightarrow> (string \<times> json) list" where
  "dict_update d other = fold (\<lambda>kv acc. dict_set acc (fst kv) (snd kv)) other d"

text \<open>\<open>s.upper()\<close> on the letters a to z.\<close>

definition upper_char :: "char \<Rightarrow> char" where
  "upper_char c =
     (case map_of (zip ''abcdefghijklmnopqrstuvwxyz'' ''ABCDEFGHIJKLMNOPQRSTUVWXYZ'') c of
        Some u \<Rightarrow> u
      | None \<Rightarrow> c)"

definition upper :: "string \<Rightarrow> string" where
  "upper s = map upper_char s"

definition build_request :: "endpoint \<Rightarrow> (string \<times> json) list \<Rightarrow> request result" where
  "build_request ep variables =
     (if \<not> truthy (ep_url ep) then Raise (ValueError ''Endpoint URL missing'')
      else
        let method = upper (case ep_method ep of None \<Rightarrow> ''POST'' | Some m \<Rightarrow> m);
            endpoint_type = (case ep_type ep of None \<Rightarrow> ''graphql'' | Some t \<Rightarrow> t);
            params = (if endpoint_type = ''graphql'' then []
                      else if ep_params ep \<noteq> [] then dict_update [] (ep_params ep) else []);
            data = (if endpoint_type = ''graphql'' then
                      (let d1 = (if truthy (ep_doc_id ep) then dict_set [] ''doc_id'' (ep_doc_id ep) else []);
                           d2 = (if truthy (ep_query_hash ep) then dict_set d1 ''query_hash'' (ep_query_hash ep) else d1);
                           d3 = (if ep_params ep \<noteq> [] then dict_update d2 (ep_params ep) else d2)
                       in if variables \<noteq> [] then dict_set d3 ''variables'' (JStr (json_dumps (JDict variables))) else d3)
                    else if variables \<noteq> [] then dict_update [] variables else [])
        in if method = ''GET'' then Ok (method, ep_url ep, dict_update params data, [])
           else Ok (method, ep_url ep, params, data))"

text \<open>The attempts of \<open>request_with_retry\<close>, numbered from 1. The result \<open>JNull\<close> is
  \<open>None\<close>. An interrupt is no \<open>Exception\<close> and passes the handler.\<close>

text \<open>\<open>response.json()\<close>, or the text under \<open>error\<close> when it raises.\<close>

definition payload_of :: "string \<Rightarrow> json option \<Rightarrow> json" where
  "payload_of text body = (case body of Some j \<Rightarrow> j | None \<Rightarrow> JDict [(''error'', JStr text)])"

fun retry_loop :: "config \<Rightarrow> request \<Rightarrow> nat list \<Rightarrow> world \<Rightarrow> json result \<times> world" where
  "retry_loop cfg req [] w = (Ok JNull, w)"
| "retry_loop cfg req (attempt # rest) w =
     (case session_request req w of
        (TransportError, w1) \<Rightarrow>
          retry_loop cfg req rest
            (if int attempt < retry_attempts cfg then sleep (retry_delay cfg) w1 else w1)
      | (Interrupt, w1) \<Rightarrow> (Raise KeyboardInterrupt, w1)
      | (Response status_code text body, w1) \<Rightarrow>
          (let payload = payload_of text body in
           if status_code = 200 then (Ok payload, w1)
           else if status_code \<in> {429, 500, 502, 503, 504} \<and> int attempt < retry_attempts cfg
             then retry_loop cfg req rest (sleep (retry_delay cfg * attempt) w1)
           else (Ok JNull, w1)))"

definition request_with_retry :: "config \<Rightarrow> request \<Rightarrow> world \<Rightarrow> json result \<times> world" where
  "request_with_retry cfg req w = retry_loop cfg req [1 ..< nat (retry_attempts cfg + 1)] w"

section \<open>Resume store\<close>

datatype stop_reason =
    no_more_pages
  | max_reached
  | no_payload
  | missing_cursor
  | cursor_stalled
  | interrupted

definition reason_name :: "stop_reason \<Rightarrow> string" where
  "reason_name r =
     (case r of
        no_more_pages \<Rightarrow> ''no_more_pages''
      | max_reached \<Rightarrow> ''max_reached''
      | no_payload \<Rightarrow> ''no_payload''
      | missing_cursor \<Rightarrow> ''missing_cursor''
      | cursor_stalled \<Rightarrow> ''cursor_stalled''
      | interrupted \<Rightarrow> ''interrupted'')"

definition reason_json :: "stop_reason option \<Rightarrow> json" where
  "reason_json r = (case r of None \<Rightarrow> JNull | Some x \<Rightarrow> JStr (reason_name x))"

text \<open>\<open>len(x)\<close>.\<close>

definition py_len :: "json \<Rightarrow> nat result" where
  "py_len x =
     (case x of
        JList xs \<Rightarrow> Ok (length xs)
      | JDict kvs \<Rightarrow> Ok (length kvs)
      | JStr s \<Rightarrow> Ok (length s)
      | _ \<Rightarrow> Raise TypeError)"

definition resume_path :: "config \<Rightarrow> string \<Rightarrow> string" where
  "resume_path cfg shortcode = data_dir cfg @ ''/ig_comments/'' @ shortcode @ ''_resume.json''"

text \<open>\<open>load_resume_state\<close>; \<open>JNull\<close> is \<open>None\<close>. A file holds a JSON document, which
  \<open>json.loads\<close> gives back as \<open>json.dumps\<close> took it, or a text that \<open>json.loads\<close>
  rejects.\<close>

definition load_resume_state :: "config \<Rightarrow> world \<Rightarrow> string \<Rightarrow> json" where
  "load_resume_state cfg w shortcode =
     (case map_of (files w) (resume_path cfg shortcode) of
        None \<Rightarrow> JNull
      | Some (Document doc) \<Rightarrow> doc
      | Some (Unparseable txt) \<Rightarrow> JNull)"

text \<open>\<open>save_resume_state\<close>. The set of seen ids is a list without repetition; Python fixes
  no order for \<open>list(seen_ids)\<close>, the model writes the ids in the order they were added.\<close>

definition save_resume_state ::
  "config \<Rightarrow> string \<Rightarrow> json \<Rightarrow> json \<Rightarrow> json list \<Rightarrow> json \<Rightarrow> json \<Rightarrow> json \<Rightarrow> json
     \<Rightarrow> stop_reason option \<Rightarrow> bool \<Rightarrow> world \<Rightarrow> unit result \<times> world" where
  "save_resume_state cfg shortcode post_info comments seen_ids cur last_cur pg expected_count reason complete w =
     (case py_len comments of
        Raise e \<Rightarrow> (Raise e, w)
      | Ok n \<Rightarrow>
          (case read_clock w of
             (now, w1) \<Rightarrow>
               (Ok (),
                write_text (resume_path cfg shortcode)
                  (JDict
                    [(''post'', post_info),
                     (''comment_count'', JInt (int n)),
                     (''comments'', comments),
                     (''seen_comment_ids'', JList seen_ids),
                     (''cursor'', cur),
                     (''last_cursor'', last_cur),
                     (''pages'', pg),
                     (''expected_comment_count'', expected_count),
                     (''stop_reason'', reason_json reason),
                     (''complete'', JBool complete),
                     (''updated_at'', JStr (isoformat now @ ''Z''))])
                  w1)))"

definition clear_resume_state :: "config \<Rightarrow> string \<Rightarrow> world \<Rightarrow> world" where
  "clear_resume_state cfg shortcode w =
     (if path_exists w (resume_path cfg shortcode) then unlink (resume_path cfg shortcode) w else w)"

definition save_output :: "config \<Rightarrow> string \<Rightarrow> json \<Rightarrow> world \<Rightarrow> string \<times> world" where
  "save_output cfg shortcode data w =
     (case read_clock w of
        (now, w1) \<Rightarrow>
          (let filename = shortcode @ ''_'' @ file_stamp now @ ''.json'';
               path = data_dir cfg @ ''/ig_comments/'' @ filename
           in (path, write_text path data w1)))"

section \<open>Comment parser\<close>

definition entry_url :: "json \<Rightarrow> json" where
  "entry_url entry =
     (case entry of JDict e \<Rightarrow> py_or (dict_get e ''url'') (dict_get e ''mp4'') | _ \<Rightarrow> JNull)"

fun first_url :: "json list \<Rightarrow> json" where
  "first_url [] = JNull"
| "first_url (entry # entries) =
     (let url = entry_url entry in if truthy url then url else first_url entries)"

definition pick_url :: "json \<Rightarrow> json" where
  "pick_url images =
     (case images of
        JDict m \<Rightarrow>
          (let url = first_url (map (dict_get m)
                       [''original'', ''fixed_width'', ''fixed_height'', ''downsized'', ''preview_gif''])
           in if truthy url then url else first_url (map snd m))
      | _ \<Rightarrow> JNull)"

definition extract_gif_url :: "(string \<times> json) list \<Rightarrow> json" where
  "extract_gif_url node =
     (case dict_get node ''giphy_media_info'' of
        JDict info \<Rightarrow>
          (case dict_get info ''url'' of
             JStr u \<Rightarrow> JStr u
           | _ \<Rightarrow>
               (let url = pick_url (dict_get info ''first_party_cdn_proxied_images'') in
                if truthy url then url
                else let url2 = pick_url (dict_get info ''images'') in
                     if truthy url2 then url2 else JNull))
      | _ \<Rightarrow> JNull)"

definition parse_user :: "(string \<times> json) list \<Rightarrow> json result" where
  "parse_user node =
     (case py_or (py_or (dict_get node ''owner'') (dict_get node ''user'')) (JDict []) of
        JDict user \<Rightarrow>
          Ok (JDict
               [(''id'', py_or (dict_get user ''id'') (dict_get user ''pk'')),
                (''username'', dict_get user ''username''),
                (''full_name'', dict_get user ''full_name''),
                (''is_verified'', dict_get user ''is_verified'')])
      | _ \<Rightarrow> Raise AttributeError)"

definition like_count_of :: "(string \<times> json) list \<Rightarrow> json" where
  "like_count_of node =
     (let c1 = dict_get node ''like_count'';
          c2 = (if c1 = JNull then dict_get node ''comment_like_count'' else c1)
      in if c2 = JNull then deep_get (JDict node) [Key ''edge_liked_by'', Key ''count''] else c2)"

definition reply_count_of :: "(string \<times> json) list \<Rightarrow> json" where
  "reply_count_of node =
     (let c1 = (case dict_get node ''edge_threaded_comments'' of
                  JDict threaded \<Rightarrow> dict_get threaded ''count''
                | _ \<Rightarrow> JNull)
      in if c1 = JNull then dict_get node ''child_comment_count'' else c1)"

text \<open>\<open>parse_comment_node\<close>. The node is whatever the edge holds; anything but a dictionary
  has no \<open>get\<close>.\<close>

definition parse_comment_node :: "json \<Rightarrow> json \<Rightarrow> (string \<times> json) list result" where
  "parse_comment_node raw post_owner_id =
     (case raw of
        JDict node \<Rightarrow>
          (let comment_id = py_or (dict_get node ''id'') (dict_get node ''pk'') in
           case parse_timestamp
                  (py_or (py_or (dict_get node ''created_at'') (dict_get node ''created_at_utc''))
                         (dict_get node ''created_at_time'')) of
             Raise e \<Rightarrow> Raise e
           | Ok created_at \<Rightarrow>
               (case parse_user node of
                  Raise e \<Rightarrow> Raise e
                | Ok user \<Rightarrow>
                    (let user_id = (case user of JDict u \<Rightarrow> dict_get u ''id'' | _ \<Rightarrow> JNull);
                         is_author = (truthy post_owner_id \<and> truthy user_id
                                        \<and> py_str user_id = py_str post_owner_id)
                     in Ok [(''id'', if comment_id \<noteq> JNull then JStr (py_str comment_id) else JNull),
                            (''text'', py_or (dict_get node ''text'') (dict_get node ''comment_text'')),
                            (''created_at'', created_at),
                            (''like_count'', like_count_of node),
                            (''gif_url'', extract_gif_url node),
                            (''user'', user),
                            (''is_author'', JBool is_author),
                            (''reply_count'', py_or (reply_count_of node) (JInt 0)),
                            (''replies'', JList [])])))
      | _ \<Rightarrow> Raise AttributeError)"

definition extract_replies_from_node :: "(string \<times> json) list \<Rightarrow> json \<times> json" where
  "extract_replies_from_node node =
     (case dict_get node ''edge_threaded_comments'' of
        JDict connection \<Rightarrow>
          (dict_get_default connection ''edges'' (JList []),
           dict_get_default connection ''page_info'' (JDict []))
      | _ \<Rightarrow> (JList [], JDict []))"

section \<open>Identity resolution and the fetchers\<close>

text \<open>\<open>re.search(r"instagram\.com/(p|reel|tv)/([^/?#]+)/?", post_url)\<close>, group 2.\<close>

definition match_shortcode :: "string \<Rightarrow> string option" where
  "match_shortcode s =
     (if starts_with ''instagram.com/'' s then
        (let r = drop 14 s;
             tail = (if starts_with ''p/'' r then Some (drop 2 r)
                     else if starts_with ''reel/'' r then Some (drop 5 r)
                     else if starts_with ''tv/'' r then Some (drop 3 r)
                     else None)
         in case tail of
              None \<Rightarrow> None
            | Some t \<Rightarrow>
                (let code = takeWhile (\<lambda>c. c \<noteq> CHR ''/'' \<and> c \<noteq> CHR ''?'' \<and> c \<noteq> CHR ''#'') t
                 in if code = [] then None else Some code))
      else None)"

fun extract_shortcode :: "string \<Rightarrow> string option" where
  "extract_shortcode [] = None"
| "extract_shortcode (c # cs) =
     (case match_shortcode (c # cs) of
        Some code \<Rightarrow> Some code
      | None \<Rightarrow> extract_shortcode cs)"

definition alphabet :: string where
  "alphabet = ''ABCDEFGHIJKLMNOPQRSTUVWXYZabcdefghijklmnopqrstuvwxyz0123456789-_''"

fun index_of :: "char \<Rightarrow> string \<Rightarrow> nat option" where
  "index_of c [] = None"
| "index_of c (x # xs) = (if x = c then Some 0 else map_option Suc (index_of c xs))"

fun decode_shortcode :: "string \<Rightarrow> int \<Rightarrow> int option" where
  "decode_shortcode [] media_id = Some media_id"
| "decode_shortcode (c # cs) media_id =
     (case index_of c alphabet of
        None \<Rightarrow> None
      | Some i \<Rightarrow> decode_shortcode cs (media_id * 64 + int i))"

definition shortcode_to_media_id :: "string \<Rightarrow> json" where
  "shortcode_to_media_id shortcode =
     (case decode_shortcode shortcode 0 of None \<Rightarrow> JNull | Some n \<Rightarrow> JStr (str_int n))"

text \<open>The patterns of \<open>resolve_media_id_from_html\<close> are raw strings in which \<open>\\d+\<close> stands: a
  backslash and a run of the letter d. Group 1 is the backslash with the run.\<close>

fun search_escaped_d :: "string \<Rightarrow> string \<Rightarrow> string \<Rightarrow> string option" where
  "search_escaped_d pre suf [] = None"
| "search_escaped_d pre suf (c # cs) =
     (let run = takeWhile (\<lambda>x. x = CHR ''d'') (drop (length pre + 1) (c # cs));
          rest = dropWhile (\<lambda>x. x = CHR ''d'') (drop (length pre + 1) (c # cs))
      in if starts_with (pre @ [CHR 0x5C]) (c # cs) \<and> run \<noteq> [] \<and> starts_with suf rest
         then Some (CHR 0x5C # run)
         else search_escaped_d pre suf cs)"

definition html_media_id :: "string \<Rightarrow> string \<Rightarrow> json" where
  "html_media_id shortcode text =
     (let dq = [CHR 0x22];
          tail = dq @ '','' @ dq @ ''shortcode'' @ dq @ '':'' @ dq @ shortcode @ dq
      in case search_escaped_d (dq @ ''media_id'' @ dq @ '':'' @ dq) dq text of
           Some g \<Rightarrow> JStr g
         | None \<Rightarrow>
             (case search_escaped_d (dq @ ''id'' @ dq @ '':'' @ dq) tail text of
                Some g \<Rightarrow> JStr g
              | None \<Rightarrow>
                  (case search_escaped_d (dq @ ''pk'' @ dq @ '':'' @ dq) tail text of
                     Some g \<Rightarrow> JStr g
                   | None \<Rightarrow> JNull)))"

definition resolve_media_id_from_html :: "string \<Rightarrow> world \<Rightarrow> json result \<times> world" where
  "resolve_media_id_from_html shortcode w =
     (case session_request (''GET'', JStr (''https://www.instagram.com/p/'' @ shortcode @ ''/''), [], []) w of
        (TransportError, w1) \<Rightarrow> (Ok JNull, w1)
      | (Interrupt, w1) \<Rightarrow> (Raise KeyboardInterrupt, w1)
      | (Response status_code text body, w1) \<Rightarrow>
          if status_code \<noteq> 200 then (Ok JNull, w1) else (Ok (html_media_id shortcode text), w1))"

text \<open>An endpoint whose \<open>doc_id\<close> still is the placeholder of the example configuration.\<close>

definition placeholder_doc_id :: "endpoint \<Rightarrow> bool" where
  "placeholder_doc_id ep = starts_with ''YOUR_'' (py_str (ep_doc_id ep))"

definition render_variables :: "endpoint \<Rightarrow> (string \<times> json) list \<Rightarrow> (string \<times> json) list" where
  "render_variables ep bindings =
     (case render_template (JDict (ep_variables ep)) bindings of JDict d \<Rightarrow> d | _ \<Rightarrow> [])"

definition with_first :: "(string \<times> json) list \<Rightarrow> int \<Rightarrow> (string \<times> json) list" where
  "with_first variables n =
     (if map_of variables ''first'' \<noteq> None \<and> n \<noteq> 0 then dict_set variables ''first'' (JInt n)
      else variables)"

text \<open>What \<open>resolve_media_id\<close> reads from the payload of the post: the id the crawl uses and
  the record of the post.\<close>

definition post_identity :: "json \<Rightarrow> json \<Rightarrow> (json \<times> (string \<times> json) list) result" where
  "post_identity payload base_media_id =
     (let media_id = pick_first_path payload
            [[Key ''data'', Key ''xdt_shortcode_media'', Key ''id''],
             [Key ''data'', Key ''shortcode_media'', Key ''id''],
             [Key ''data'', Key ''xdt_shortcode_media'', Key ''pk''],
             [Key ''data'', Key ''shortcode_media'', Key ''pk''],
             [Key ''data'', Key ''media'', Key ''id''],
             [Key ''data'', Key ''media'', Key ''pk'']];
          owner_id = pick_first_path payload
            [[Key ''data'', Key ''xdt_shortcode_media'', Key ''owner'', Key ''id''],
             [Key ''data'', Key ''shortcode_media'', Key ''owner'', Key ''id'']];
          caption = pick_first_path payload
            [[Key ''data'', Key ''xdt_shortcode_media'', Key ''edge_media_to_caption'',
              Key ''edges'', Index 0, Key ''node'', Key ''text''],
             [Key ''data'', Key ''shortcode_media'', Key ''edge_media_to_caption'',
              Key ''edges'', Index 0, Key ''node'', Key ''text'']]
      in case parse_timestamp (pick_first_path payload
                [[Key ''data'', Key ''xdt_shortcode_media'', Key ''taken_at_timestamp''],
                 [Key ''data'', Key ''shortcode_media'', Key ''taken_at_timestamp'']]) of
           Raise e \<Rightarrow> Raise e
         | Ok created_at \<Rightarrow>
             Ok (if truthy media_id \<and> py_str media_id \<noteq> [] then JStr (py_str media_id)
                 else base_media_id,
                 [(''media_id'', media_id), (''owner_id'', owner_id),
                  (''caption'', caption), (''created_at'', created_at)]))"

definition resolve_media_id :: "config \<Rightarrow> string \<Rightarrow> world \<Rightarrow> (json \<times> (string \<times> json) list) result \<times> world" where
  "resolve_media_id cfg shortcode w =
     (let base_media_id = shortcode_to_media_id shortcode;
          fallback = (if truthy base_media_id then (Ok (base_media_id, [(''media_id'', base_media_id)]), w)
                      else case resolve_media_id_from_html shortcode w of
                             (Raise e, w1) \<Rightarrow> (Raise e, w1)
                           | (Ok media_id, w1) \<Rightarrow> (Ok (media_id, [(''media_id'', media_id)]), w1))
      in case endpoints_post_by_shortcode cfg of
           None \<Rightarrow> fallback
         | Some ep \<Rightarrow>
             if placeholder_doc_id ep then fallback
             else
               (case build_request ep
                       (render_variables ep
                          [(''shortcode'', JStr shortcode), (''media_id'', JNull),
                           (''cursor'', JNull), (''comment_id'', JNull)]) of
                  Raise e \<Rightarrow> (Raise e, w)
                | Ok req \<Rightarrow>
                    (case request_with_retry cfg req w of
                       (Raise e, w1) \<Rightarrow> (Raise e, w1)
                     | (Ok payload, w1) \<Rightarrow>
                         if \<not> truthy payload then (Ok (JNull, []), w1)
                         else (post_identity payload base_media_id, w1))))"

definition fetch_comments_page :: "config \<Rightarrow> string \<Rightarrow> json \<Rightarrow> json \<Rightarrow> world \<Rightarrow> json result \<times> world" where
  "fetch_comments_page cfg shortcode media_id cur w =
     (case endpoints_comments cfg of
        None \<Rightarrow> (Ok JNull, w)
      | Some ep \<Rightarrow>
          if placeholder_doc_id ep then (Ok JNull, w)
          else
            (case build_request ep
                    (with_first
                       (render_variables ep
                          [(''shortcode'', JStr shortcode), (''media_id'', media_id),
                           (''cursor'', cur), (''comment_id'', JNull)])
                       (comments_first cfg)) of
               Raise e \<Rightarrow> (Raise e, w)
             | Ok req \<Rightarrow> request_with_retry cfg req w))"

definition fetch_comment_replies :: "config \<Rightarrow> json \<Rightarrow> json \<Rightarrow> json \<Rightarrow> world \<Rightarrow> json result \<times> world" where
  "fetch_comment_replies cfg comment_id cur media_id w =
     (case endpoints_comment_replies cfg of
        None \<Rightarrow> (Ok JNull, w)
      | Some ep \<Rightarrow>
          if placeholder_doc_id ep then (Ok JNull, w)
          else
            (case build_request ep
                    (with_first
                       (render_variables ep
                          [(''shortcode'', JNull), (''media_id'', media_id),
                           (''cursor'', cur), (''comment_id'', comment_id)])
                       (replies_first cfg)) of
               Raise e \<Rightarrow> (Raise e, w)
             | Ok req \<Rightarrow> request_with_retry cfg req w))"

section \<open>Pagination engine\<close>

text \<open>The set of seen ids: a list without repetition. Its members are hashable values
  (strings, \<open>None\<close>, numbers), compared as Python compares them.\<close>

definition py_in :: "json \<Rightarrow> json list \<Rightarrow> bool" where
  "py_in x s = list_ex (py_eq x) s"

definition set_add :: "json \<Rightarrow> json list \<Rightarrow> json list" where
  "set_add x s = (if py_in x s then s else s @ [x])"

text \<open>\<open>for x in v\<close>: the items of a list, the keys of a dictionary, the characters of a
  string.\<close>

definition py_iter :: "json \<Rightarrow> json list result" where
  "py_iter v =
     (case v of
        JList xs \<Rightarrow> Ok xs
      | JDict kvs \<Rightarrow> Ok (map (\<lambda>kv. JStr (fst kv)) kvs)
      | JStr s \<Rightarrow> Ok (map (\<lambda>c. JStr [c]) s)
      | _ \<Rightarrow> Raise TypeError)"

fun hashable :: "json \<Rightarrow> bool" where
  "hashable (JList xs) = False"
| "hashable (JDict kvs) = False"
| "hashable v = True"

text \<open>\<open>set(v)\<close>.\<close>

definition py_set :: "json \<Rightarrow> json list result" where
  "py_set v =
     (case py_iter v of
        Raise e \<Rightarrow> Raise e
      | Ok xs \<Rightarrow> if list_all hashable xs then Ok (fold set_add xs []) else Raise TypeError)"

text \<open>The local variables of \<open>crawl_post_comments\<close> that the loop changes, and those it
  only reads.\<close>

record vars =
  all_comments :: json
  seen_comment_ids :: "json list"
  cursor :: json
  last_cursor :: json
  page :: json
  prev_cursor :: json
  backtrack_used :: bool
  total_count :: json
  stop_reason :: "stop_reason option"

record ctx =
  c_cfg :: config
  c_shortcode :: string
  c_media_id :: json
  c_post_info :: "(string \<times> json) list"
  c_max_comments :: "int option"

text \<open>How a step of a loop ends: it goes on, it leaves the loop (\<open>break\<close>), or an exception
  is in flight.\<close>

datatype flow = Next | Stop | Fail py_error

definition edge_node :: "json \<Rightarrow> json" where
  "edge_node edge = (case edge of JDict e \<Rightarrow> dict_get e ''node'' | _ \<Rightarrow> JNull)"

text \<open>\<open>parsed["replies"].append(reply)\<close>.\<close>

definition append_reply :: "(string \<times> json) list \<Rightarrow> json \<Rightarrow> (string \<times> json) list" where
  "append_reply parsed reply =
     (case dict_get parsed ''replies'' of
        JList rs \<Rightarrow> dict_set parsed ''replies'' (JList (rs @ [reply]))
      | _ \<Rightarrow> parsed)"

definition replies_of :: "(string \<times> json) list \<Rightarrow> json list" where
  "replies_of parsed = (case dict_get parsed ''replies'' of JList rs \<Rightarrow> rs | _ \<Rightarrow> [])"

text \<open>The loop over the edges of replies, inline or fetched: it changes the seen ids and
  the replies of the comment in hand.\<close>

fun add_replies ::
  "json \<Rightarrow> json \<Rightarrow> json list \<Rightarrow> json list \<times> (string \<times> json) list
     \<Rightarrow> (json list \<times> (string \<times> json) list) result" where
  "add_replies owner_id parsed_id [] sp = Ok sp"
| "add_replies owner_id parsed_id (reply_edge # rest) sp =
     (let reply_node = edge_node reply_edge in
      if \<not> truthy reply_node then add_replies owner_id parsed_id rest sp
      else
        (case parse_comment_node reply_node owner_id of
           Raise e \<Rightarrow> Raise e
         | Ok reply0 \<Rightarrow>
             (let reply = dict_set reply0 ''parent_id'' parsed_id;
                  reply_id = dict_get reply ''id''
              in if truthy reply_id \<and> \<not> py_in reply_id (fst sp)
                 then add_replies owner_id parsed_id rest
                        (set_add reply_id (fst sp), append_reply (snd sp) (JDict reply))
                 else add_replies owner_id parsed_id rest sp)))"

definition replies_enabled :: "config \<Rightarrow> bool" where
  "replies_enabled cfg =
     (fetch_replies cfg \<and>
      (case endpoints_comment_replies cfg of
         None \<Rightarrow> False
       | Some ep \<Rightarrow> \<not> placeholder_doc_id ep))"

text \<open>\<open>reply_count > n\<close> for a count that came out of the payload.\<close>

definition py_gt_nat :: "json \<Rightarrow> nat \<Rightarrow> bool result" where
  "py_gt_nat x n =
     (case x of
        JInt k \<Rightarrow> Ok (int n < k)
      | JBool b \<Rightarrow> Ok (int n < (if b then 1 else 0))
      | _ \<Rightarrow> Raise TypeError)"

text \<open>The condition that opens the reply sub-loop.\<close>

definition want_replies :: "config \<Rightarrow> json \<Rightarrow> json \<Rightarrow> nat \<Rightarrow> json \<Rightarrow> bool result" where
  "want_replies cfg parsed_id reply_count n reply_page =
     (if \<not> (replies_enabled cfg \<and> truthy parsed_id) then Ok False
      else
        (case py_gt_nat reply_count n of
           Raise e \<Rightarrow> Raise e
         | Ok True \<Rightarrow> Ok True
         | Ok False \<Rightarrow>
             (case py_get reply_page ''has_next_page'' of
                Raise e \<Rightarrow> Raise e
              | Ok h \<Rightarrow> Ok (truthy h))))"

text \<open>One turn of the reply sub-loop after its page came: the edges, then the cursor. The
  first component is the next cursor when the loop goes on; the second is the exception in
  flight, if any.\<close>

definition reply_turn ::
  "ctx \<Rightarrow> json \<Rightarrow> json \<Rightarrow> json \<Rightarrow> json list \<Rightarrow> (string \<times> json) list
     \<Rightarrow> json option \<times> py_error option \<times> json list \<times> (string \<times> json) list" where
  "reply_turn c parsed_id last_reply_cursor reply_payload seen parsed =
     (case extract_reply_connection reply_payload of
        Raise e \<Rightarrow> (None, Some e, seen, parsed)
      | Ok (reply_edges2, reply_page2, count2) \<Rightarrow>
          (case py_iter reply_edges2 of
             Raise e \<Rightarrow> (None, Some e, seen, parsed)
           | Ok edges \<Rightarrow>
               (case add_replies (dict_get (c_post_info c) ''owner_id'') parsed_id edges (seen, parsed) of
                  Raise e \<Rightarrow> (None, Some e, seen, parsed)
                | Ok (seen2, parsed2) \<Rightarrow>
                    (case reply_page2 of
                       JDict pi \<Rightarrow>
                         if \<not> truthy (dict_get pi ''has_next_page'') then (None, None, seen2, parsed2)
                         else
                           (let next_cursor = dict_get pi ''end_cursor'' in
                            if \<not> truthy next_cursor \<or> py_eq next_cursor last_reply_cursor
                            then (None, None, seen2, parsed2)
                            else (Some next_cursor, None, seen2, parsed2))
                     | _ \<Rightarrow> (None, Some AttributeError, seen2, parsed2)))))"

text \<open>The reply sub-loop \<open>while True\<close>. It gives the exception in flight, if any, with the
  seen ids and the comment as they are at that moment.\<close>

function reply_loop ::
  "ctx \<Rightarrow> json \<Rightarrow> json \<Rightarrow> json \<Rightarrow> json list \<Rightarrow> (string \<times> json) list \<Rightarrow> world
     \<Rightarrow> py_error option \<times> json list \<times> (string \<times> json) list \<times> world" where
  "reply_loop c parsed_id reply_cursor last_reply_cursor seen parsed w =
     (case fetch_comment_replies (c_cfg c) parsed_id reply_cursor (c_media_id c) w of
        (Raise e, w1) \<Rightarrow> (Some e, seen, parsed, w1)
      | (Ok reply_payload, w1) \<Rightarrow>
          if \<not> truthy reply_payload then (None, seen, parsed, w1)
          else
            (case reply_turn c parsed_id last_reply_cursor reply_payload seen parsed of
               (Some next_cursor, e, seen2, parsed2) \<Rightarrow>
                 reply_loop c parsed_id next_cursor next_cursor seen2 parsed2 w1
             | (None, e, seen2, parsed2) \<Rightarrow> (e, seen2, parsed2, w1)))"
  by pat_completeness auto

text \<open>Inline replies and fetched replies of one new top-level comment, whose id is in the
  seen ids already.\<close>

definition collect_replies ::
  "ctx \<Rightarrow> (string \<times> json) list \<Rightarrow> (string \<times> json) list \<Rightarrow> json list \<Rightarrow> world
     \<Rightarrow> py_error option \<times> json list \<times> (string \<times> json) list \<times> world" where
  "collect_replies c node parsed seen w =
     (let parsed_id = dict_get parsed ''id'';
          reply_count = py_or (dict_get parsed ''reply_count'') (JInt 0);
          owner_id = dict_get (c_post_info c) ''owner_id''
      in case extract_replies_from_node node of
           (reply_edges, reply_page) \<Rightarrow>
             (case (if truthy reply_edges
                    then (case py_iter reply_edges of
                            Raise e \<Rightarrow> Raise e
                          | Ok edges \<Rightarrow> add_replies owner_id parsed_id edges (seen, parsed))
                    else Ok (seen, parsed)) of
                Raise e \<Rightarrow> (Some e, seen, parsed, w)
              | Ok (seen1, parsed1) \<Rightarrow>
                  (case want_replies (c_cfg c) parsed_id reply_count (length (replies_of parsed1)) reply_page of
                     Raise e \<Rightarrow> (Some e, seen1, parsed1, w)
                   | Ok False \<Rightarrow> (None, seen1, parsed1, w)
                   | Ok True \<Rightarrow>
                       (case reply_page of
                          JDict pi \<Rightarrow>
                            reply_loop c parsed_id
                              (if truthy (dict_get pi ''has_next_page'') then dict_get pi ''end_cursor'' else JNull)
                              JNull seen1 parsed1 w
                        | _ \<Rightarrow> (Some AttributeError, seen1, parsed1, w)))))"

text \<open>\<open>all_comments.append(parsed)\<close>.\<close>

definition py_append :: "json \<Rightarrow> json \<Rightarrow> json result" where
  "py_append xs x = (case xs of JList ys \<Rightarrow> Ok (JList (ys @ [x])) | _ \<Rightarrow> Raise AttributeError)"

text \<open>\<open>max_comments and len(seen_comment_ids) >= max_comments\<close>.\<close>

definition max_hit :: "int option \<Rightarrow> json list \<Rightarrow> bool" where
  "max_hit limit seen =
     (case limit of None \<Rightarrow> False | Some m \<Rightarrow> m \<noteq> 0 \<and> m \<le> int (length seen))"

text \<open>The body of \<open>for edge in edges\<close>.\<close>

definition process_edge :: "ctx \<Rightarrow> json \<Rightarrow> vars \<Rightarrow> world \<Rightarrow> flow \<times> vars \<times> world" where
  "process_edge c edge v w =
     (let node = edge_node edge in
      if \<not> truthy node then (Next, v, w)
      else
        (case parse_comment_node node (dict_get (c_post_info c) ''owner_id'') of
           Raise e \<Rightarrow> (Fail e, v, w)
         | Ok parsed \<Rightarrow>
             (let parsed_id = dict_get parsed ''id'' in
              if py_in parsed_id (seen_comment_ids v) then (Next, v, w)
              else
                (case collect_replies c (case node of JDict n \<Rightarrow> n | _ \<Rightarrow> []) parsed
                        (set_add parsed_id (seen_comment_ids v)) w of
                   (Some e, seen1, parsed1, w1) \<Rightarrow> (Fail e, v\<lparr>seen_comment_ids := seen1\<rparr>, w1)
                 | (None, seen1, parsed1, w1) \<Rightarrow>
                     (case py_append (all_comments v) (JDict parsed1) of
                        Raise e \<Rightarrow> (Fail e, v\<lparr>seen_comment_ids := seen1\<rparr>, w1)
                      | Ok comments1 \<Rightarrow>
                          (let v1 = v\<lparr>seen_comment_ids := seen1, all_comments := comments1\<rparr> in
                           if max_hit (c_max_comments c) seen1
                           then (Fail StopIteration, v1\<lparr>stop_reason := Some max_reached\<rparr>, w1)
                           else (Next, v1, w1)))))))"

fun process_edges :: "ctx \<Rightarrow> json list \<Rightarrow> vars \<Rightarrow> world \<Rightarrow> flow \<times> vars \<times> world" where
  "process_edges c [] v w = (Next, v, w)"
| "process_edges c (edge # edges) v w =
     (case process_edge c edge v w of
        (Next, v1, w1) \<Rightarrow> process_edges c edges v1 w1
      | r \<Rightarrow> r)"

text \<open>The page-level retries: \<open>for attempt in range(self.page_retry_attempts + 1)\<close>. The
  fourth argument is \<open>payload\<close> as the loop found it.\<close>

fun fetch_attempts :: "ctx \<Rightarrow> json \<Rightarrow> nat list \<Rightarrow> json \<Rightarrow> world \<Rightarrow> json result \<times> world" where
  "fetch_attempts c current_cursor [] payload w = (Ok payload, w)"
| "fetch_attempts c current_cursor (attempt # rest) payload w =
     (case fetch_comments_page (c_cfg c) (c_shortcode c) (c_media_id c) current_cursor w of
        (Raise e, w1) \<Rightarrow> (Raise e, w1)
      | (Ok fetched, w1) \<Rightarrow>
          if truthy fetched then (Ok fetched, w1)
          else fetch_attempts c current_cursor rest fetched
                 (if int attempt < page_retry_attempts (c_cfg c)
                  then sleep (page_retry_delay (c_cfg c) * (attempt + 1)) w1
                  else w1))"

definition fetch_page :: "ctx \<Rightarrow> json \<Rightarrow> world \<Rightarrow> json result \<times> world" where
  "fetch_page c current_cursor w =
     fetch_attempts c current_cursor [0 ..< nat (page_retry_attempts (c_cfg c) + 1)] JNull w"

text \<open>\<open>page += 1\<close>.\<close>

definition py_incr :: "json \<Rightarrow> json result" where
  "py_incr x =
     (case x of
        JInt n \<Rightarrow> Ok (JInt (n + 1))
      | JBool b \<Rightarrow> Ok (JInt ((if b then 1 else 0) + 1))
      | _ \<Rightarrow> Raise TypeError)"

definition checkpoint :: "ctx \<Rightarrow> vars \<Rightarrow> world \<Rightarrow> unit result \<times> world" where
  "checkpoint c v w =
     save_resume_state (c_cfg c) (c_shortcode c) (JDict (c_post_info c)) (all_comments v)
       (seen_comment_ids v) (cursor v) (last_cursor v) (page v) (total_count v) (stop_reason v) False w"

text \<open>The end of a page that was fetched and whose edges are done: from the test of
  \<open>has_next_page\<close> to the checkpoint.\<close>

definition page_end :: "ctx \<Rightarrow> json \<Rightarrow> json \<Rightarrow> vars \<Rightarrow> world \<Rightarrow> flow \<times> vars \<times> world" where
  "page_end c current_cursor page_info v w =
     (case page_info of
        JDict pi \<Rightarrow>
          if \<not> truthy (dict_get pi ''has_next_page'')
          then (Stop, v\<lparr>stop_reason := Some no_more_pages\<rparr>, w)
          else
            (let v1 = v\<lparr>prev_cursor := current_cursor, cursor := dict_get pi ''end_cursor''\<rparr> in
             if \<not> truthy (cursor v1) then (Stop, v1\<lparr>stop_reason := Some missing_cursor\<rparr>, w)
             else if py_eq (cursor v1) (last_cursor v1)
               then (Stop, v1\<lparr>stop_reason := Some cursor_stalled\<rparr>, w)
             else
               (let v2 = v1\<lparr>last_cursor := cursor v1\<rparr> in
                case checkpoint c v2 w of
                  (Raise e, w1) \<Rightarrow> (Fail e, v2, w1)
                | (Ok u, w1) \<Rightarrow> (Next, v2, w1)))
      | _ \<Rightarrow> (Fail AttributeError, v, w))"

text \<open>A page that was fetched: from \<open>backtrack_used = False\<close> to the end of the loop body.\<close>

definition page_body :: "ctx \<Rightarrow> json \<Rightarrow> json \<Rightarrow> vars \<Rightarrow> world \<Rightarrow> flow \<times> vars \<times> world" where
  "page_body c current_cursor payload v w =
     (let v0 = v\<lparr>backtrack_used := False\<rparr> in
      case py_incr (page v0) of
        Raise e \<Rightarrow> (Fail e, v0, w)
      | Ok pg \<Rightarrow>
          (let v1 = v0\<lparr>page := pg\<rparr> in
           case extract_comment_connection payload of
             Raise e \<Rightarrow> (Fail e, v1, w)
           | Ok (edges, page_info, count) \<Rightarrow>
               (let v2 = (if total_count v1 = JNull then v1\<lparr>total_count := count\<rparr> else v1) in
                case py_iter edges of
                  Raise e \<Rightarrow> (Fail e, v2, w)
                | Ok edge_list \<Rightarrow>
                    (case process_edges c edge_list v2 w of
                       (Next, v3, w3) \<Rightarrow> page_end c current_cursor page_info v3 w3
                     | r \<Rightarrow> r))))"

text \<open>One turn of \<open>while True\<close>.\<close>

definition loop_iter :: "ctx \<Rightarrow> vars \<Rightarrow> world \<Rightarrow> flow \<times> vars \<times> world" where
  "loop_iter c v w =
     (let current_cursor = cursor v in
      case fetch_page c current_cursor w of
        (Raise e, w1) \<Rightarrow> (Fail e, v, w1)
      | (Ok payload, w1) \<Rightarrow>
          if \<not> truthy payload then
            (if truthy (prev_cursor v) \<and> \<not> py_eq (prev_cursor v) current_cursor \<and> \<not> backtrack_used v
             then (Next, v\<lparr>cursor := prev_cursor v, backtrack_used := True\<rparr>, w1)
             else (Stop, v\<lparr>stop_reason := Some no_payload\<rparr>, w1))
          else page_body c current_cursor payload v w1)"

function crawl_loop :: "ctx \<Rightarrow> vars \<Rightarrow> world \<Rightarrow> flow \<times> vars \<times> world" where
  "crawl_loop c v w =
     (case loop_iter c v w of
        (Next, v1, w1) \<Rightarrow> crawl_loop c v1 w1
      | r \<Rightarrow> r)"
  by pat_completeness auto

text \<open>\<open>complete = (stop_reason == "no_more_pages")\<close>.\<close>

definition crawl_complete :: "vars \<Rightarrow> bool" where
  "crawl_complete v = (stop_reason v = Some no_more_pages)"

text \<open>What follows the loop: the result is written, then the checkpoint is cleared or
  written once more.\<close>

definition finalize :: "ctx \<Rightarrow> vars \<Rightarrow> world \<Rightarrow> json result \<times> world" where
  "finalize c v w =
     (case py_len (all_comments v) of
        Raise e \<Rightarrow> (Raise e, w)
      | Ok n \<Rightarrow>
          (case read_clock w of
             (now, w1) \<Rightarrow>
               (let result =
                      [(''post'', JDict (c_post_info c)),
                       (''comment_count'', JInt (int n)),
                       (''expected_comment_count'', total_count v),
                       (''fetched_at'', JStr (isoformat now @ ''Z'')),
                       (''comments'', all_comments v),
                       (''pages'', page v),
                       (''stop_reason'', reason_json (stop_reason v))]
                in case save_output (c_cfg c) (c_shortcode c) (JDict result) w1 of
                     (output_path, w2) \<Rightarrow>
                       (let result1 = dict_set result ''output_path'' (JStr output_path);
                            complete = crawl_complete v
                        in if complete
                           then (Ok (JDict result1), clear_resume_state (c_cfg c) (c_shortcode c) w2)
                           else
                             (case checkpoint c v w2 of
                                (Raise e, w3) \<Rightarrow> (Raise e, w3)
                              | (Ok u, w3) \<Rightarrow> (Ok (JDict result1), w3))))))"

text \<open>The \<open>try\<close> around the loop: an interrupt and the \<open>StopIteration\<close> of the maximum are
  caught, anything else passes.\<close>

definition run_loop :: "ctx \<Rightarrow> vars \<Rightarrow> world \<Rightarrow> vars result \<times> world" where
  "run_loop c v w =
     (case crawl_loop c v w of
        (Fail KeyboardInterrupt, v1, w1) \<Rightarrow> (Ok (v1\<lparr>stop_reason := Some interrupted\<rparr>), w1)
      | (Fail StopIteration, v1, w1) \<Rightarrow> (Ok v1, w1)
      | (Fail e, v1, w1) \<Rightarrow> (Raise e, w1)
      | (fl, v1, w1) \<Rightarrow> (Ok v1, w1))"

text \<open>The checkpoint the crawl resumes from, \<open>JNull\<close> when it starts fresh.\<close>

definition resume_state_of :: "config \<Rightarrow> world \<Rightarrow> string \<Rightarrow> bool \<Rightarrow> json result" where
  "resume_state_of cfg w shortcode resume =
     (if \<not> resume then Ok JNull
      else
        (let loaded = load_resume_state cfg w shortcode in
         if \<not> truthy loaded then Ok loaded
         else
           (case py_get loaded ''complete'' of
              Raise e \<Rightarrow> Raise e
            | Ok complete \<Rightarrow> if truthy complete then Ok JNull else Ok loaded)))"

definition fresh_vars :: vars where
  "fresh_vars =
     \<lparr>all_comments = JList [], seen_comment_ids = [], cursor = JNull, last_cursor = JNull,
      page = JInt 0, prev_cursor = JNull, backtrack_used = False, total_count = JNull,
      stop_reason = None\<rparr>"

definition resumed_vars :: "(string \<times> json) list \<Rightarrow> vars result" where
  "resumed_vars rs =
     (case py_set (dict_get_default rs ''seen_comment_ids'' (JList [])) of
        Raise e \<Rightarrow> Raise e
      | Ok seen \<Rightarrow>
          Ok (fresh_vars
                \<lparr>all_comments := dict_get_default rs ''comments'' (JList []),
                 seen_comment_ids := seen,
                 cursor := dict_get rs ''cursor'',
                 last_cursor := dict_get rs ''last_cursor'',
                 page := dict_get_default rs ''pages'' (JInt 0),
                 total_count := dict_get rs ''expected_comment_count''\<rparr>))"

text \<open>From the identity of the post to the return of the result.\<close>

definition crawl_from :: "ctx \<Rightarrow> vars \<Rightarrow> world \<Rightarrow> json result \<times> world" where
  "crawl_from c v w =
     (case run_loop c v w of
        (Raise e, w1) \<Rightarrow> (Raise e, w1)
      | (Ok v1, w1) \<Rightarrow> finalize c v1 w1)"

definition start_fresh ::
  "config \<Rightarrow> string \<Rightarrow> string \<Rightarrow> int option \<Rightarrow> world \<Rightarrow> json result \<times> world" where
  "start_fresh cfg post_url shortcode limit w =
     (case resolve_media_id cfg shortcode w of
        (Raise e, w1) \<Rightarrow> (Raise e, w1)
      | (Ok (media_id, post_info), w1) \<Rightarrow>
          crawl_from
            \<lparr>c_cfg = cfg, c_shortcode = shortcode, c_media_id = media_id,
             c_post_info = dict_update post_info
               [(''url'', JStr post_url), (''shortcode'', JStr shortcode), (''media_id'', media_id)],
             c_max_comments = limit\<rparr>
            fresh_vars w1)"

definition start_resumed ::
  "config \<Rightarrow> string \<Rightarrow> int option \<Rightarrow> json \<Rightarrow> world \<Rightarrow> json result \<times> world" where
  "start_resumed cfg shortcode limit resume_state w =
     (case resume_state of
        JDict rs \<Rightarrow>
          (case dict_get_default rs ''post'' (JDict []) of
             JDict post_info \<Rightarrow>
               (case resumed_vars rs of
                  Raise e \<Rightarrow> (Raise e, w)
                | Ok v \<Rightarrow>
                    crawl_from
                      \<lparr>c_cfg = cfg, c_shortcode = shortcode,
                       c_media_id = py_or (dict_get post_info ''media_id'') (shortcode_to_media_id shortcode),
                       c_post_info = post_info, c_max_comments = limit\<rparr>
                      v w)
           | _ \<Rightarrow> (Raise AttributeError, w))
      | _ \<Rightarrow> (Raise AttributeError, w))"

definition crawl_post_comments ::
  "config \<Rightarrow> string \<Rightarrow> int option \<Rightarrow> bool option \<Rightarrow> world \<Rightarrow> json result \<times> world" where
  "crawl_post_comments cfg post_url max_arg resume_arg w =
     (case extract_shortcode post_url of
        None \<Rightarrow> (Raise (ValueError ''Invalid Instagram post URL''), w)
      | Some shortcode \<Rightarrow>
          (let limit = (case max_arg of Some m \<Rightarrow> Some m | None \<Rightarrow> max_comments cfg);
               resume = (case resume_arg of None \<Rightarrow> resume_by_default cfg | Some r \<Rightarrow> r)
           in case resume_state_of cfg w shortcode resume of
                Raise e \<Rightarrow> (Raise e, w)
              | Ok resume_state \<Rightarrow>
                  if truthy resume_state then start_resumed cfg shortcode limit resume_state w
                  else start_fresh cfg post_url shortcode limit w))"

section \<open>Notions the claims are stated with\<close>



text \<open>A configuration, a world and a request for the examples.\<close>

definition cfg0 :: config where
  "cfg0 = \<lparr>data_dir = ''crawler_data'', retry_attempts = 3, retry_delay = 5, max_comments = Some 400,
      fetch_replies = True, resume_by_default = True, comments_first = 20, replies_first = 20,
      page_retry_attempts = 2, page_retry_delay = 3,
      endpoints_post_by_shortcode = None, endpoints_comments = None, endpoints_comment_replies = None\<rparr>"

definition world0 :: "outcome list \<Rightarrow> world" where
  "world0 outs = \<lparr>script = outs, sent = [], sleeps = [], files = [], fs_log = [],
      utcnow = (\<lambda>n. (int n, 0)), ticks = 0\<rparr>"


text \<open>An id as the parser makes it: a string or \<open>None\<close>.\<close>

definition is_id :: "json \<Rightarrow> bool" where
  "is_id x = (case x of JNull \<Rightarrow> True | JStr s \<Rightarrow> True | _ \<Rightarrow> False)"

text \<open>The ids of a comment record: its own and those of its replies. The tree has two
  levels: the parser gives a reply no replies of its own.\<close>

definition comment_id :: "json \<Rightarrow> json" where
  "comment_id comment = (case comment of JDict d \<Rightarrow> dict_get d ''id'' | _ \<Rightarrow> JNull)"

definition comment_ids :: "json \<Rightarrow> json list" where
  "comment_ids comment =
     (case comment of
        JDict d \<Rightarrow> dict_get d ''id'' # map comment_id (replies_of d)
      | _ \<Rightarrow> [])"

text \<open>The flattened ids of a comment tree.\<close>

definition flat_ids :: "json \<Rightarrow> json list" where
  "flat_ids comments = (case comments of JList cs \<Rightarrow> concat (map comment_ids cs) | _ \<Rightarrow> [])"

text \<open>The dedup invariant of the loop: the comments are a list, no id occurs twice in the
  tree, every id of the tree is among the seen ids, and the seen ids are strings or \<open>None\<close>,
  none twice.\<close>

definition dedup_inv :: "json \<Rightarrow> json list \<Rightarrow> bool" where
  "dedup_inv comments seen =
     (is_list comments \<and> distinct (flat_ids comments) \<and> set (flat_ids comments) \<subseteq> set seen
      \<and> list_all is_id seen \<and> distinct seen)"

text \<open>The same of a checkpoint document.\<close>

definition checkpoint_ok :: "json \<Rightarrow> bool" where
  "checkpoint_ok doc =
     (case doc of
        JDict d \<Rightarrow>
          (case dict_get d ''seen_comment_ids'' of
             JList seen \<Rightarrow> dedup_inv (dict_get d ''comments'') seen
           | _ \<Rightarrow> False)
      | _ \<Rightarrow> False)"

text \<open>The checkpoints of a post that a trace of the file system holds.\<close>

definition checkpoints_written :: "config \<Rightarrow> string \<Rightarrow> fs_event list \<Rightarrow> json list" where
  "checkpoints_written cfg shortcode log =
     concat (map (\<lambda>ev. case ev of
                          Written path doc \<Rightarrow> if path = resume_path cfg shortcode then [doc] else []
                        | Unlinked path \<Rightarrow> []) log)"

text \<open>A configuration with the comments endpoint, a context of the loop, and pages as the
  first fixed path of the navigator finds them.\<close>

definition ep1 :: endpoint where
  "ep1 = \<lparr>ep_url = JStr ''https://www.instagram.com/graphql/query'', ep_method = None,
      ep_type = None, ep_doc_id = JStr ''123'', ep_query_hash = JNull, ep_params = [],
      ep_variables = [(''shortcode'', JStr ''{shortcode}''), (''after'', JStr ''{cursor}''),
                      (''first'', JInt 50)]\<rparr>"

definition cfg1 :: config where
  "cfg1 = cfg0\<lparr>endpoints_comments := Some ep1\<rparr>"

definition ctx1 :: "int option \<Rightarrow> ctx" where
  "ctx1 limit = \<lparr>c_cfg = cfg1, c_shortcode = ''B'', c_media_id = JStr ''1'',
      c_post_info = [(''media_id'', JStr ''1''), (''shortcode'', JStr ''B'')],
      c_max_comments = limit\<rparr>"

definition page_of :: "json list \<Rightarrow> (string \<times> json) list \<Rightarrow> json" where
  "page_of nodes page_info =
     JDict [(''data'',
       JDict [(''xdt_api__v1__media__media_id__comments__connection'',
         JDict [(''edges'', JList (map (\<lambda>n. JDict [(''node'', n)]) nodes)),
                (''page_info'', JDict page_info)])])]"


text \<open>Two states of the loop with the same paging variables.\<close>

definition same_paging :: "vars \<Rightarrow> vars \<Rightarrow> bool" where
  "same_paging v v' =
     (cursor v' = cursor v \<and> last_cursor v' = last_cursor v \<and> page v' = page v
      \<and> prev_cursor v' = prev_cursor v \<and> backtrack_used v' = backtrack_used v
      \<and> total_count v' = total_count v)"

text \<open>Two worlds with the same files, the same trace of the file system and the same clock:
  what the network leaves alone.\<close>

definition same_disk :: "world \<Rightarrow> world \<Rightarrow> bool" where
  "same_disk w w' =
     (files w' = files w \<and> fs_log w' = fs_log w \<and> ticks w' = ticks w \<and> utcnow w' = utcnow w)"

text \<open>The comment in hand while its replies are collected, over the ids \<open>ids0\<close> of the tree so
  far and the \<open>n0\<close> ids seen before it: its id stands, its replies are a list, no id of the
  tree and of the comment occurs twice, all of them are seen, the seen ids have grown by the
  comment and its replies, and every reply has an id that is true.\<close>

definition inflight :: "json list \<Rightarrow> nat \<Rightarrow> json \<Rightarrow> json list \<Rightarrow> (string \<times> json) list \<Rightarrow> bool" where
  "inflight ids0 n0 parsed_id seen parsed =
     (dict_get parsed ''id'' = parsed_id
      \<and> dict_get parsed ''replies'' = JList (replies_of parsed)
      \<and> distinct (ids0 @ comment_ids (JDict parsed))
      \<and> set (ids0 @ comment_ids (JDict parsed)) \<subseteq> set seen
      \<and> list_all is_id seen \<and> distinct seen
      \<and> length seen = n0 + 1 + length (replies_of parsed)
      \<and> list_all (\<lambda>r. truthy (comment_id r)) (replies_of parsed))"

text \<open>What one edge does to the variables: nothing (the node is empty or its id is seen), or
  an exception other than \<open>StopIteration\<close> with the tree as it was, or one comment more at
  the end of the tree, followed at once by the test of the maximum.\<close>

definition edge_result :: "ctx \<Rightarrow> vars \<Rightarrow> flow \<Rightarrow> vars \<Rightarrow> bool" where
  "edge_result c v fl v' =
     ((fl = Next \<and> v' = v)
      \<or> (\<exists>e. fl = Fail e \<and> e \<noteq> StopIteration \<and> all_comments v' = all_comments v
            \<and> stop_reason v' = stop_reason v
            \<and> dedup_inv (all_comments v') (seen_comment_ids v')
            \<and> set (seen_comment_ids v) \<subseteq> set (seen_comment_ids v'))
      \<or> (\<exists>cs parsed. all_comments v = JList cs \<and> all_comments v' = JList (cs @ [JDict parsed])
            \<and> inflight (flat_ids (all_comments v)) (length (seen_comment_ids v)) (dict_get parsed ''id'')
                 (seen_comment_ids v') parsed
            \<and> \<not> py_in (dict_get parsed ''id'') (seen_comment_ids v)
            \<and> set (seen_comment_ids v) \<subseteq> set (seen_comment_ids v')
            \<and> (if max_hit (c_max_comments c) (seen_comment_ids v')
                then fl = Fail StopIteration \<and> stop_reason v' = Some max_reached
                else fl = Next \<and> stop_reason v' = stop_reason v)))"

text \<open>Every checkpoint of the post in the trace is one of the trace \<open>log0\<close> or keeps the
  dedup invariant.\<close>

definition log_ok :: "config \<Rightarrow> string \<Rightarrow> fs_event list \<Rightarrow> fs_event list \<Rightarrow> bool" where
  "log_ok cfg shortcode log0 log =
     list_all (\<lambda>doc. doc \<in> set (checkpoints_written cfg shortcode log0) \<or> checkpoint_ok doc)
       (checkpoints_written cfg shortcode log)"

text \<open>The stop reason that goes with the way a turn of the loop ends.\<close>

definition stopped :: "flow \<Rightarrow> vars \<Rightarrow> bool" where
  "stopped fl v =
     ((fl = Stop \<longrightarrow> stop_reason v \<in> {Some no_more_pages, Some no_payload, Some missing_cursor,
                                       Some cursor_stalled})
      \<and> (fl = Fail StopIteration \<longrightarrow> stop_reason v = Some max_reached))"

text \<open>The invariant of the loop, over the trace \<open>log0\<close> the crawl found.\<close>

definition loop_inv :: "ctx \<Rightarrow> fs_event list \<Rightarrow> vars \<Rightarrow> world \<Rightarrow> bool" where
  "loop_inv c log0 v w =
     (dedup_inv (all_comments v) (seen_comment_ids v)
      \<and> log_ok (c_cfg c) (c_shortcode c) log0 (fs_log w))"

section \<open>The loops end\<close>

text \<open>A request that brings a payload takes an outcome from the script, and nothing puts
  one back: both loops end when the script is finite.\<close>

lemma script_sleep [simp]: "script (sleep n w) = script w"
  by (simp add: sleep_def)

lemma script_write_text [simp]: "script (write_text p d w) = script w"
  by (simp add: write_text_def)

lemma script_unlink [simp]: "script (unlink p w) = script w"
  by (simp add: unlink_def)

lemma session_request_script:
  "session_request req w = (out, w1) \<Longrightarrow> length (script w1) \<le> length (script w)"
  by (auto simp: session_request_def split: list.splits)

lemma session_request_response:
  "session_request req w = (Response st tx body, w1) \<Longrightarrow> length (script w1) < length (script w)"
  by (auto simp: session_request_def split: list.splits)

lemma retry_loop_script:
  "retry_loop cfg req as w = (r, w') \<Longrightarrow> length (script w') \<le> length (script w)"
proof (induction as arbitrary: w)
  case Nil
  then show ?case by simp
next
  case (Cons a as)
  obtain out w1 where sr: "session_request req w = (out, w1)"
    by (cases "session_request req w")
  note le = session_request_script [OF sr]
  show ?case
  proof (cases out)
    case TransportError
    with Cons.prems sr have
      "retry_loop cfg req as (if int a < retry_attempts cfg then sleep (retry_delay cfg) w1 else w1) = (r, w')"
      by simp
    from Cons.IH [OF this] le show ?thesis by (simp split: if_splits)
  next
    case Interrupt
    with Cons.prems sr le show ?thesis by auto
  next
    case (Response st tx body)
    show ?thesis
    proof (cases "st \<noteq> 200 \<and> st \<in> {429, 500, 502, 503, 504} \<and> int a < retry_attempts cfg")
      case True
      with Cons.prems sr Response have
        "retry_loop cfg req as (sleep (retry_delay cfg * a) w1) = (r, w')"
        by (simp add: Let_def)
      from Cons.IH [OF this] le show ?thesis by simp
    next
      case False
      with Cons.prems sr Response have "w' = w1"
        by (auto simp: Let_def split: if_splits)
      with le show ?thesis by simp
    qed
  qed
qed

lemma retry_loop_truthy:
  "retry_loop cfg req as w = (Ok p, w') \<Longrightarrow> truthy p \<Longrightarrow> length (script w') < length (script w)"
proof (induction as arbitrary: w)
  case Nil
  then show ?case by simp
next
  case (Cons a as)
  obtain out w1 where sr: "session_request req w = (out, w1)"
    by (cases "session_request req w")
  note le = session_request_script [OF sr]
  show ?case
  proof (cases out)
    case TransportError
    with Cons.prems sr have
      "retry_loop cfg req as (if int a < retry_attempts cfg then sleep (retry_delay cfg) w1 else w1) = (Ok p, w')"
      by simp
    from Cons.IH [OF this Cons.prems(2)] le show ?thesis by (simp split: if_splits)
  next
    case Interrupt
    with Cons.prems sr le show ?thesis by auto
  next
    case (Response st tx body)
    note lt = session_request_response [OF sr [unfolded Response]]
    show ?thesis
    proof (cases "st \<noteq> 200 \<and> st \<in> {429, 500, 502, 503, 504} \<and> int a < retry_attempts cfg")
      case True
      with Cons.prems sr Response have
        "retry_loop cfg req as (sleep (retry_delay cfg * a) w1) = (Ok p, w')"
        by (simp add: Let_def)
      from Cons.IH [OF this Cons.prems(2)] le show ?thesis by simp
    next
      case False
      with Cons.prems sr Response have "w' = w1"
        by (auto simp: Let_def split: if_splits)
      with lt show ?thesis by simp
    qed
  qed
qed

lemma fetch_comment_replies_script:
  "fetch_comment_replies cfg cid cur mid w = (r, w') \<Longrightarrow> length (script w') \<le> length (script w)"
  by (auto simp: fetch_comment_replies_def request_with_retry_def
      split: option.splits if_splits result.splits dest: retry_loop_script)

lemma fetch_comment_replies_truthy:
  "fetch_comment_replies cfg cid cur mid w = (Ok p, w') \<Longrightarrow> truthy p
     \<Longrightarrow> length (script w') < length (script w)"
  by (auto simp: fetch_comment_replies_def request_with_retry_def
      split: option.splits if_splits result.splits dest: retry_loop_truthy)

lemma fetch_comments_page_script:
  "fetch_comments_page cfg sc mid cur w = (r, w') \<Longrightarrow> length (script w') \<le> length (script w)"
  by (auto simp: fetch_comments_page_def request_with_retry_def
      split: option.splits if_splits result.splits dest: retry_loop_script)

lemma fetch_comments_page_truthy:
  "fetch_comments_page cfg sc mid cur w = (Ok p, w') \<Longrightarrow> truthy p
     \<Longrightarrow> length (script w') < length (script w)"
  by (auto simp: fetch_comments_page_def request_with_retry_def
      split: option.splits if_splits result.splits dest: retry_loop_truthy)

termination reply_loop
  by (relation "measure (\<lambda>(c, parsed_id, reply_cursor, last_reply_cursor, seen, parsed, w). length (script w))")
     (auto dest: fetch_comment_replies_truthy [OF sym])

declare reply_loop.simps [simp del]


lemma reply_turn_state:
  assumes "reply_turn c pid lrc payload seen parsed = (nc, e, seen2, parsed2)"
  shows "(seen2, parsed2) = (seen, parsed)
    \<or> (\<exists>edges. add_replies (dict_get (c_post_info c) ''owner_id'') pid edges (seen, parsed) = Ok (seen2, parsed2))"
proof (cases "extract_reply_connection payload")
  case (Raise x)
  with assms show ?thesis by (simp add: reply_turn_def)
next
  case (Ok parts)
  obtain edges2 page2 count2 where parts: "parts = (edges2, page2, count2)"
    by (cases parts)
  show ?thesis
  proof (cases "py_iter edges2")
    case (Raise x)
    with assms Ok parts show ?thesis by (simp add: reply_turn_def)
  next
    case it: (Ok edges)
    show ?thesis
    proof (cases "add_replies (dict_get (c_post_info c) ''owner_id'') pid edges (seen, parsed)")
      case (Raise x)
      with assms Ok parts it show ?thesis by (simp add: reply_turn_def)
    next
      case ad: (Ok sp)
      obtain s2 p2 where sp: "sp = (s2, p2)" by (cases sp)
      have "seen2 = s2 \<and> parsed2 = p2"
        using assms Ok parts it ad sp
        by (cases page2) (auto simp: reply_turn_def Let_def split: if_splits)
      with ad sp show ?thesis by blast
    qed
  qed
qed

lemma reply_loop_invariant:
  assumes run: "reply_loop c pid rc lrc seen parsed w = (e, seen', parsed', w')"
    and init: "P seen parsed w"
    and fetched: "\<And>rc seen parsed w r w1. P seen parsed w
          \<Longrightarrow> fetch_comment_replies (c_cfg c) pid rc (c_media_id c) w = (r, w1) \<Longrightarrow> P seen parsed w1"
    and added: "\<And>edges seen parsed w seen2 parsed2. P seen parsed w
          \<Longrightarrow> add_replies (dict_get (c_post_info c) ''owner_id'') pid edges (seen, parsed) = Ok (seen2, parsed2)
          \<Longrightarrow> P seen2 parsed2 w"
  shows "P seen' parsed' w'"
  using run init
proof (induction "length (script w)" arbitrary: rc lrc seen parsed w rule: less_induct)
  case less
  obtain r w1 where f: "fetch_comment_replies (c_cfg c) pid rc (c_media_id c) w = (r, w1)"
    by (cases "fetch_comment_replies (c_cfg c) pid rc (c_media_id c) w")
  have P1: "P seen parsed w1"
    using fetched [OF less.prems(2) f] .
  show ?case
  proof (cases r)
    case (Raise x)
    with less.prems(1) f P1 show ?thesis
      by (subst (asm) reply_loop.simps) simp
  next
    case (Ok payload)
    show ?thesis
    proof (cases "truthy payload")
      case False
      with less.prems(1) f Ok P1 show ?thesis
        by (subst (asm) reply_loop.simps) simp
    next
      case True
      obtain nc e2 seen2 parsed2 where
        rp: "reply_turn c pid lrc payload seen parsed = (nc, e2, seen2, parsed2)"
        by (cases "reply_turn c pid lrc payload seen parsed")
      have P2: "P seen2 parsed2 w1"
        using reply_turn_state [OF rp] P1 added by auto
      show ?thesis
      proof (cases nc)
        case None
        with less.prems(1) f Ok True rp P2 show ?thesis
          by (subst (asm) reply_loop.simps) simp
      next
        case (Some cur)
        have lt: "length (script w1) < length (script w)"
          using fetch_comment_replies_truthy f Ok True by blast
        have "reply_loop c pid cur cur seen2 parsed2 w1 = (e, seen', parsed', w')"
          using less.prems(1) f Ok True rp Some
          by (subst (asm) reply_loop.simps) simp
        from less.hyps [OF lt this P2] show ?thesis .
      qed
    qed
  qed
qed

lemma reply_loop_script:
  assumes "reply_loop c pid rc lrc seen parsed w = (e, seen', parsed', w')"
  shows "length (script w') \<le> length (script w)"
  using assms
  by (rule reply_loop_invariant [where P = "\<lambda>s p x. length (script x) \<le> length (script w)"])
     (auto dest: fetch_comment_replies_script)


lemma collect_replies_script:
  assumes "collect_replies c node parsed seen w = (e, seen', parsed', w')"
  shows "length (script w') \<le> length (script w)"
proof -
  obtain reply_edges rp where ex: "extract_replies_from_node node = (reply_edges, rp)"
    by (cases "extract_replies_from_node node")
  show ?thesis
    using assms ex reply_loop_script
    by (auto simp: collect_replies_def Let_def
        split: result.splits if_splits prod.splits bool.splits json.splits)
qed

lemma process_edge_script:
  assumes "process_edge c edge v w = (fl, v', w')"
  shows "length (script w') \<le> length (script w)"
proof (cases "collect_replies c (case edge_node edge of JDict n \<Rightarrow> n | _ \<Rightarrow> [])
          (case parse_comment_node (edge_node edge) (dict_get (c_post_info c) ''owner_id'') of Ok p \<Rightarrow> p | _ \<Rightarrow> [])
          (set_add (dict_get (case parse_comment_node (edge_node edge) (dict_get (c_post_info c) ''owner_id'') of Ok p \<Rightarrow> p | _ \<Rightarrow> []) ''id'') (seen_comment_ids v)) w")
  case (fields e seen1 parsed1 w1)
  note le = collect_replies_script [OF fields]
  show ?thesis
    using assms fields le
    by (auto simp: process_edge_def Let_def split: result.splits if_splits option.splits)
qed

lemma process_edges_script:
  "process_edges c edges v w = (fl, v', w') \<Longrightarrow> length (script w') \<le> length (script w)"
proof (induction edges arbitrary: v w)
  case Nil
  then show ?case by simp
next
  case (Cons edge edges)
  obtain fl1 v1 w1 where pe: "process_edge c edge v w = (fl1, v1, w1)"
    by (cases "process_edge c edge v w")
  note le = process_edge_script [OF pe]
  show ?case
  proof (cases fl1)
    case Next
    with Cons.prems pe have "process_edges c edges v1 w1 = (fl, v', w')" by simp
    from Cons.IH [OF this] le show ?thesis by simp
  next
    case Stop
    with Cons.prems pe le show ?thesis by simp
  next
    case (Fail x)
    with Cons.prems pe le show ?thesis by simp
  qed
qed

lemma fetch_attempts_script:
  "fetch_attempts c cur as p0 w = (r, w') \<Longrightarrow> length (script w') \<le> length (script w)"
proof (induction as arbitrary: p0 w)
  case Nil
  then show ?case by simp
next
  case (Cons a as)
  obtain r1 w1 where f: "fetch_comments_page (c_cfg c) (c_shortcode c) (c_media_id c) cur w = (r1, w1)"
    by (cases "fetch_comments_page (c_cfg c) (c_shortcode c) (c_media_id c) cur w")
  note le = fetch_comments_page_script [OF f]
  show ?case
  proof (cases r1)
    case (Raise x)
    with Cons.prems f le show ?thesis by simp
  next
    case (Ok fetched)
    show ?thesis
    proof (cases "truthy fetched")
      case True
      with Cons.prems f Ok le show ?thesis by simp
    next
      case False
      with Cons.prems f Ok have
        "fetch_attempts c cur as fetched
           (if int a < page_retry_attempts (c_cfg c)
            then sleep (page_retry_delay (c_cfg c) * (a + 1)) w1 else w1) = (r, w')"
        by simp
      from Cons.IH [OF this] le show ?thesis by (simp split: if_splits)
    qed
  qed
qed

lemma fetch_attempts_truthy:
  "fetch_attempts c cur as p0 w = (Ok p, w') \<Longrightarrow> truthy p \<Longrightarrow> \<not> truthy p0
     \<Longrightarrow> length (script w') < length (script w)"
proof (induction as arbitrary: p0 w)
  case Nil
  then show ?case by simp
next
  case (Cons a as)
  obtain r1 w1 where f: "fetch_comments_page (c_cfg c) (c_shortcode c) (c_media_id c) cur w = (r1, w1)"
    by (cases "fetch_comments_page (c_cfg c) (c_shortcode c) (c_media_id c) cur w")
  note le = fetch_comments_page_script [OF f]
  show ?case
  proof (cases r1)
    case (Raise x)
    with Cons.prems f le show ?thesis by simp
  next
    case (Ok fetched)
    show ?thesis
    proof (cases "truthy fetched")
      case True
      with Cons.prems f Ok have "w' = w1" by simp
      with fetch_comments_page_truthy f Ok True show ?thesis by blast
    next
      case False
      with Cons.prems f Ok have
        "fetch_attempts c cur as fetched
           (if int a < page_retry_attempts (c_cfg c)
            then sleep (page_retry_delay (c_cfg c) * (a + 1)) w1 else w1) = (Ok p, w')"
        by simp
      from Cons.IH [OF this Cons.prems(2) False] le show ?thesis by (simp split: if_splits)
    qed
  qed
qed

lemma save_resume_state_script:
  "save_resume_state cfg sc post cs seen cur lc pg ec sr cm w = (r, w') \<Longrightarrow> script w' = script w"
  by (auto simp: save_resume_state_def read_clock_def split: result.splits)

lemma page_end_script:
  "page_end c cur pinfo v w = (fl, v', w') \<Longrightarrow> script w' = script w"
  by (auto simp: page_end_def checkpoint_def Let_def
      split: json.splits if_splits prod.splits result.splits dest: save_resume_state_script)

lemma page_body_script:
  assumes "page_body c cur payload v w = (fl, v', w')"
  shows "length (script w') \<le> length (script w)"
proof (cases "\<exists>pg edges pinfo count el v3 w3.
    extract_comment_connection payload = Ok (edges, pinfo, count) \<and> py_iter edges = Ok el
    \<and> py_incr (page (v\<lparr>backtrack_used := False\<rparr>)) = Ok pg
    \<and> process_edges c el
         (if total_count (v\<lparr>backtrack_used := False, page := pg\<rparr>) = JNull
          then v\<lparr>backtrack_used := False, page := pg, total_count := count\<rparr>
          else v\<lparr>backtrack_used := False, page := pg\<rparr>) w = (Next, v3, w3)
    \<and> page_end c cur pinfo v3 w3 = (fl, v', w')")
  case True
  then show ?thesis
    using process_edges_script page_end_script by fastforce
next
  case False
  with assms have "w' = w \<or> (\<exists>el v2 fl2. process_edges c el v2 w = (fl2, v', w'))"
    by (auto simp: page_body_def Let_def split: result.splits prod.splits flow.splits if_splits)
  then show ?thesis
    using process_edges_script by auto
qed

lemma loop_iter_decreases:
  assumes "loop_iter c v w = (Next, v', w')"
  shows "2 * length (script w') + (if backtrack_used v' then 0 else 1)
       < 2 * length (script w) + (if backtrack_used v then 0 else 1)"
proof -
  obtain r w1 where f: "fetch_page c (cursor v) w = (r, w1)"
    by (cases "fetch_page c (cursor v) w")
  have le: "length (script w1) \<le> length (script w)"
    using f fetch_attempts_script by (simp add: fetch_page_def)
  show ?thesis
  proof (cases r)
    case (Raise x)
    with assms f show ?thesis by (simp add: loop_iter_def)
  next
    case (Ok payload)
    show ?thesis
    proof (cases "truthy payload")
      case False
      with assms f Ok le show ?thesis
        by (auto simp: loop_iter_def Let_def split: if_splits)
    next
      case True
      have lt: "length (script w1) < length (script w)"
        using f Ok True fetch_attempts_truthy [of c "cursor v" _ JNull w payload w1]
        by (simp add: fetch_page_def)
      have "page_body c (cursor v) payload v w1 = (Next, v', w')"
        using assms f Ok True by (simp add: loop_iter_def Let_def)
      from page_body_script [OF this] lt show ?thesis
        by (simp split: if_splits)
    qed
  qed
qed

termination crawl_loop
  by (relation "measure (\<lambda>(c, v, w). 2 * length (script w) + (if backtrack_used v then 0 else 1))")
     (auto dest: loop_iter_decreases [OF sym])

declare crawl_loop.simps [simp del]

section \<open>Template renderer: dropping-safe\<close>

lemma dict_set_all:
  "list_all (\<lambda>kv. Q (snd kv)) kvs \<Longrightarrow> Q v \<Longrightarrow> list_all (\<lambda>kv. Q (snd kv)) (dict_set kvs k v)"
  by (induction kvs) auto

lemma fold_render_all:
  assumes "\<And>kv. kv \<in> set kvs \<Longrightarrow> dropping_safe (render_template (snd kv) vars)"
    and "list_all (\<lambda>kv. snd kv \<noteq> JNull \<and> dropping_safe (snd kv)) acc"
  shows "list_all (\<lambda>kv. snd kv \<noteq> JNull \<and> dropping_safe (snd kv))
     (fold (\<lambda>kv rendered.
                    let rv = render_template (snd kv) vars
                    in if rv \<noteq> JNull then dict_set rendered (fst kv) rv else rendered)
                 kvs acc)"
  using assms
proof (induction kvs arbitrary: acc)
  case Nil
  then show ?case by simp
next
  case (Cons kv kvs)
  let ?rv = "render_template (snd kv) vars"
  let ?acc = "if ?rv \<noteq> JNull then dict_set acc (fst kv) ?rv else acc"
  have safe: "dropping_safe ?rv"
    using Cons.prems(1) by simp
  have "list_all (\<lambda>kv. snd kv \<noteq> JNull \<and> dropping_safe (snd kv)) ?acc"
    using Cons.prems(2) safe
      dict_set_all [where Q = "\<lambda>v. v \<noteq> JNull \<and> dropping_safe v" and kvs = acc]
    by simp
  moreover have "\<And>kv'. kv' \<in> set kvs \<Longrightarrow> dropping_safe (render_template (snd kv') vars)"
    using Cons.prems(1) by simp
  ultimately show ?case
    using Cons.IH [of ?acc] by (simp add: Let_def)
qed

text \<open>
  C8. \<open>render_template\<close> is dropping-safe. For every nested structure and every binding of
  the variables, the rendered structure has no string value in which a placeholder
  \<open>{name}\<close> is left, and no \<open>None\<close> stands in a mapping or in a sequence for a dropped
  value: the key, respectively the element, is left out. (A string template that is
  dropped at the top is \<open>None\<close>. The keys of a mapping are copied, not rendered.)
\<close>

theorem render_template_dropping_safe: "dropping_safe (render_template v vars)"
proof (induction v)
  case (JStr s)
  then show ?case by (simp split: option.splits)
next
  case (JList xs)
  then show ?case by (auto simp: list_all_iff)
next
  case (JDict kvs)
  have "\<And>kv. kv \<in> set kvs \<Longrightarrow> dropping_safe (render_template (snd kv) vars)"
  proof -
    fix kv assume mem: "kv \<in> set kvs"
    have "snd kv \<in> Basic_BNFs.snds kv"
      by (cases kv) (simp add: prod_set_simps)
    with mem show "dropping_safe (render_template (snd kv) vars)"
      by (rule JDict)
  qed
  then show ?case
    by (simp add: fold_render_all)
qed simp_all

theorem render_template_dropping_safe_witness:
  "dropping_safe (render_template
     (JDict [(''shortcode'', JStr ''{shortcode}''), (''drop_missing'', JStr ''{missing_key}''),
             (''items'', JList [JStr ''ok'', JStr ''{unknown}''])])
     [(''shortcode'', JStr ''abc'')])
   \<and> render_template
     (JDict [(''shortcode'', JStr ''{shortcode}''), (''drop_missing'', JStr ''{missing_key}''),
             (''items'', JList [JStr ''ok'', JStr ''{unknown}''])])
     [(''shortcode'', JStr ''abc'')]
     = JDict [(''shortcode'', JStr ''abc''), (''items'', JList [JStr ''ok''])]"
proof -
  have "render_template
     (JDict [(''shortcode'', JStr ''{shortcode}''), (''drop_missing'', JStr ''{missing_key}''),
             (''items'', JList [JStr ''ok'', JStr ''{unknown}''])])
     [(''shortcode'', JStr ''abc'')]
     = JDict [(''shortcode'', JStr ''abc''), (''items'', JList [JStr ''ok''])]"
    by code_simp
  then show ?thesis
    using render_template_dropping_safe
      [of "JDict [(''shortcode'', JStr ''{shortcode}''), (''drop_missing'', JStr ''{missing_key}''),
             (''items'', JList [JStr ''ok'', JStr ''{unknown}''])]" "[(''shortcode'', JStr ''abc'')]"]
    by simp
qed

section \<open>Request executor: the retry policy\<close>







section \<open>Resume store: the round trip\<close>

lemma map_of_file_put [simp]: "map_of (file_put fs p f) p = Some f"
  by (induction fs) auto

lemma map_of_file_put_other: "q \<noteq> p \<Longrightarrow> map_of (file_put fs p f) q = map_of fs q"
  by (induction fs) auto

lemma map_of_unlinked [simp]: "map_of (filter (\<lambda>pf. fst pf \<noteq> p) fs) p = None"
  by (induction fs) auto

lemma map_of_unlinked_other: "q \<noteq> p \<Longrightarrow> map_of (filter (\<lambda>pf. fst pf \<noteq> p) fs) q = map_of fs q"
  by (induction fs) auto

lemma py_eq_id: "is_id x \<Longrightarrow> py_eq x y = (y = x)"
  by (cases x) (auto simp: is_id_def)

lemma py_in_id: "is_id x \<Longrightarrow> py_in x s = (x \<in> set s)"
  by (auto simp: py_in_def list_ex_iff py_eq_id)

lemma hashable_id: "is_id x \<Longrightarrow> hashable x"
  by (cases x) (auto simp: is_id_def)

lemma fold_set_add_ids:
  "list_all is_id xs \<Longrightarrow> set (fold set_add xs acc) = set xs \<union> set acc"
  by (induction xs arbitrary: acc) (auto simp: set_add_def py_in_id)




section \<open>Pagination engine: one turn of the loop\<close>


lemma crawl_loop_Next:
  "loop_iter c v w = (Next, v1, w1) \<Longrightarrow> crawl_loop c v w = crawl_loop c v1 w1"
  by (subst crawl_loop.simps) simp

lemma crawl_loop_done:
  "loop_iter c v w = (fl, v1, w1) \<Longrightarrow> fl \<noteq> Next \<Longrightarrow> crawl_loop c v w = (fl, v1, w1)"
  by (subst crawl_loop.simps) (simp split: flow.splits)

lemma process_edge_frame:
  "process_edge c edge v w = (fl, v', w') \<Longrightarrow> same_paging v v'"
  by (auto simp: process_edge_def same_paging_def Let_def
      split: result.splits if_splits prod.splits option.splits)

lemma process_edges_frame:
  "process_edges c edges v w = (fl, v', w') \<Longrightarrow> same_paging v v'"
proof (induction edges arbitrary: v w)
  case Nil
  then show ?case by (simp add: same_paging_def)
next
  case (Cons edge edges)
  obtain fl1 v1 w1 where pe: "process_edge c edge v w = (fl1, v1, w1)"
    by (cases "process_edge c edge v w")
  note f1 = process_edge_frame [OF pe]
  show ?case
  proof (cases fl1)
    case Next
    with Cons.prems pe have "process_edges c edges v1 w1 = (fl, v', w')" by simp
    from Cons.IH [OF this] f1 show ?thesis by (simp add: same_paging_def)
  next
    case Stop
    with Cons.prems pe f1 show ?thesis by auto
  next
    case (Fail x)
    with Cons.prems pe f1 show ?thesis by auto
  qed
qed



text \<open>
  C5. A page fetch that failed after all page-level attempts (\<open>fetch_page\<close> gives a payload
  that is not true). If a previous cursor exists, differs from the current one and
  backtracking was not used since the last page that came, the loop takes the previous
  cursor, marks backtracking used and tries again; in every other case it stops with
  \<open>no_payload\<close>. It tries once: when the fetch at the previous cursor fails too, the loop
  stops with \<open>no_payload\<close>. A page that came clears the mark.
\<close>

theorem backtrack_or_no_payload:
  "(fetch_page c (cursor v) w = (Ok payload, wa) \<and> \<not> truthy payload
      \<and> truthy (prev_cursor v) \<and> \<not> py_eq (prev_cursor v) (cursor v) \<and> \<not> backtrack_used v
     \<longrightarrow> loop_iter c v w = (Next, v\<lparr>cursor := prev_cursor v, backtrack_used := True\<rparr>, wa))
   \<and> (fetch_page c (cursor v) w = (Ok payload, wa) \<and> \<not> truthy payload
      \<and> \<not> (truthy (prev_cursor v) \<and> \<not> py_eq (prev_cursor v) (cursor v) \<and> \<not> backtrack_used v)
     \<longrightarrow> loop_iter c v w = (Stop, v\<lparr>stop_reason := Some no_payload\<rparr>, wa))
   \<and> (fetch_page c (cursor v) w = (Ok payload, wa) \<and> \<not> truthy payload
      \<and> fetch_page c (prev_cursor v) wa = (Ok again, wb) \<and> \<not> truthy again
      \<and> truthy (prev_cursor v) \<and> \<not> py_eq (prev_cursor v) (cursor v) \<and> \<not> backtrack_used v
     \<longrightarrow> crawl_loop c v w
         = (Stop, v\<lparr>cursor := prev_cursor v, backtrack_used := True, stop_reason := Some no_payload\<rparr>, wb))
   \<and> (page_body c cur payload v w = (Next, v', w') \<longrightarrow> \<not> backtrack_used v')"
proof (intro conjI impI)
  assume a: "fetch_page c (cursor v) w = (Ok payload, wa) \<and> \<not> truthy payload
      \<and> fetch_page c (prev_cursor v) wa = (Ok again, wb) \<and> \<not> truthy again
      \<and> truthy (prev_cursor v) \<and> \<not> py_eq (prev_cursor v) (cursor v) \<and> \<not> backtrack_used v"
  then have 1: "loop_iter c v w = (Next, v\<lparr>cursor := prev_cursor v, backtrack_used := True\<rparr>, wa)"
    by (simp add: loop_iter_def Let_def)
  from a have 2: "loop_iter c (v\<lparr>cursor := prev_cursor v, backtrack_used := True\<rparr>) wa
       = (Stop, v\<lparr>cursor := prev_cursor v, backtrack_used := True, stop_reason := Some no_payload\<rparr>, wb)"
    by (simp add: loop_iter_def Let_def)
  show "crawl_loop c v w
         = (Stop, v\<lparr>cursor := prev_cursor v, backtrack_used := True, stop_reason := Some no_payload\<rparr>, wb)"
    using crawl_loop_Next [OF 1] crawl_loop_done [OF 2] by simp
next
  assume "page_body c cur payload v w = (Next, v', w')"
  then obtain el v2 v3 w3 pinfo where pe: "process_edges c el v2 w = (Next, v3, w3)"
    and b2: "\<not> backtrack_used v2" and en: "page_end c cur pinfo v3 w3 = (Next, v', w')"
    by (auto simp: page_body_def Let_def split: result.splits prod.splits flow.splits if_splits)
  from process_edges_frame [OF pe] b2 have "\<not> backtrack_used v3" by (simp add: same_paging_def)
  with en show "\<not> backtrack_used v'"
    by (auto simp: page_end_def Let_def split: json.splits if_splits prod.splits result.splits)
qed (simp_all add: loop_iter_def Let_def)

theorem backtrack_or_no_payload_witness:
  "loop_iter (ctx1 None) (fresh_vars\<lparr>cursor := JStr ''c2'', prev_cursor := JStr ''c1''\<rparr>) (world0 [])
     = (Next, fresh_vars\<lparr>cursor := JStr ''c2'', prev_cursor := JStr ''c1'', cursor := JStr ''c1'',
                        backtrack_used := True\<rparr>,
        snd (fetch_page (ctx1 None) (JStr ''c2'') (world0 [])))
   \<and> loop_iter (ctx1 None) fresh_vars (world0 [])
     = (Stop, fresh_vars\<lparr>stop_reason := Some no_payload\<rparr>, snd (fetch_page (ctx1 None) JNull (world0 [])))
   \<and> loop_iter (ctx1 None) (fresh_vars\<lparr>cursor := JStr ''c1'', prev_cursor := JStr ''c1''\<rparr>) (world0 [])
     = (Stop, fresh_vars\<lparr>cursor := JStr ''c1'', prev_cursor := JStr ''c1'', stop_reason := Some no_payload\<rparr>,
        snd (fetch_page (ctx1 None) (JStr ''c1'') (world0 [])))
   \<and> crawl_loop (ctx1 None) (fresh_vars\<lparr>cursor := JStr ''c2'', prev_cursor := JStr ''c1''\<rparr>) (world0 [])
     = (Stop, fresh_vars\<lparr>cursor := JStr ''c2'', prev_cursor := JStr ''c1'', cursor := JStr ''c1'',
                        backtrack_used := True, stop_reason := Some no_payload\<rparr>,
        snd (fetch_page (ctx1 None) (JStr ''c1'') (snd (fetch_page (ctx1 None) (JStr ''c2'') (world0 [])))))
   \<and> fst (page_body (ctx1 None) JNull
            (page_of [] [(''has_next_page'', JBool True), (''end_cursor'', JStr ''c1'')])
            (fresh_vars\<lparr>backtrack_used := True\<rparr>) (world0 [])) = Next
   \<and> \<not> backtrack_used (fst (snd (page_body (ctx1 None) JNull
            (page_of [] [(''has_next_page'', JBool True), (''end_cursor'', JStr ''c1'')])
            (fresh_vars\<lparr>backtrack_used := True\<rparr>) (world0 []))))"
proof -
  let ?c = "ctx1 None"
  let ?v = "fresh_vars\<lparr>cursor := JStr ''c2'', prev_cursor := JStr ''c1''\<rparr>"
  let ?u = "fresh_vars\<lparr>cursor := JStr ''c1'', prev_cursor := JStr ''c1''\<rparr>"
  let ?wa = "snd (fetch_page ?c (JStr ''c2'') (world0 []))"
  let ?wb = "snd (fetch_page ?c (JStr ''c1'') ?wa)"
  let ?pb = "page_body ?c JNull (page_of [] [(''has_next_page'', JBool True), (''end_cursor'', JStr ''c1'')])
            (fresh_vars\<lparr>backtrack_used := True\<rparr>) (world0 [])"
  have c_v: "cursor ?v = JStr ''c2''" and p_v: "prev_cursor ?v = JStr ''c1''"
    and c_u: "cursor ?u = JStr ''c1''" and p_u: "prev_cursor ?u = JStr ''c1''"
    and c_f: "cursor fresh_vars = JNull"
    by (simp_all add: fresh_vars_def)
  have f1: "fst (fetch_page ?c (JStr ''c2'') (world0 [])) = Ok JNull" by code_simp
  have f2: "fst (fetch_page ?c (JStr ''c1'') ?wa) = Ok JNull" by code_simp
  have f3: "fst (fetch_page ?c JNull (world0 [])) = Ok JNull" by code_simp
  have f4: "fst (fetch_page ?c (JStr ''c1'') (world0 [])) = Ok JNull" by code_simp
  have g1: "truthy (prev_cursor ?v) \<and> \<not> py_eq (prev_cursor ?v) (cursor ?v) \<and> \<not> backtrack_used ?v"
    by code_simp
  have g3: "\<not> (truthy (prev_cursor fresh_vars) \<and> \<not> py_eq (prev_cursor fresh_vars) (cursor fresh_vars)
      \<and> \<not> backtrack_used fresh_vars)"
    by code_simp
  have g4: "\<not> (truthy (prev_cursor ?u) \<and> \<not> py_eq (prev_cursor ?u) (cursor ?u) \<and> \<not> backtrack_used ?u)"
    by code_simp
  have h1: "fetch_page ?c (cursor ?v) (world0 []) = (Ok JNull, ?wa) \<and> \<not> truthy JNull"
    using f1 c_v by (metis prod.collapse truthy.simps(1))
  have h2: "fetch_page ?c (prev_cursor ?v) ?wa = (Ok JNull, ?wb)"
    using f2 p_v by (metis prod.collapse)
  have h3: "fetch_page ?c (cursor fresh_vars) (world0 []) = (Ok JNull, snd (fetch_page ?c JNull (world0 [])))
      \<and> \<not> truthy JNull"
    using f3 c_f by (metis prod.collapse truthy.simps(1))
  have h4: "fetch_page ?c (cursor ?u) (world0 []) = (Ok JNull, snd (fetch_page ?c (JStr ''c1'') (world0 [])))
      \<and> \<not> truthy JNull"
    using f4 c_u by (metis prod.collapse truthy.simps(1))
  have pb: "fst ?pb = Next" by code_simp
  then have h5: "?pb = (Next, fst (snd ?pb), snd (snd ?pb))"
    by (metis prod.collapse)
  note a = backtrack_or_no_payload [where c = ?c and v = ?v and w = "world0 []" and payload = JNull
      and wa = ?wa and again = JNull and wb = ?wb]
  note b = backtrack_or_no_payload [where c = ?c and v = fresh_vars and w = "world0 []" and payload = JNull
      and wa = "snd (fetch_page ?c JNull (world0 []))"]
  note b' = backtrack_or_no_payload [where c = ?c and v = ?u and w = "world0 []" and payload = JNull
      and wa = "snd (fetch_page ?c (JStr ''c1'') (world0 []))"]
  note d = backtrack_or_no_payload [where c = ?c and cur = JNull and v = "fresh_vars\<lparr>backtrack_used := True\<rparr>"
      and w = "world0 []" and payload = "page_of [] [(''has_next_page'', JBool True), (''end_cursor'', JStr ''c1'')]"
      and v' = "fst (snd ?pb)" and w' = "snd (snd ?pb)"]
  have 1: "loop_iter ?c ?v (world0 [])
     = (Next, ?v\<lparr>cursor := prev_cursor ?v, backtrack_used := True\<rparr>, ?wa)"
    using a h1 g1 by blast
  have 2: "loop_iter ?c fresh_vars (world0 [])
     = (Stop, fresh_vars\<lparr>stop_reason := Some no_payload\<rparr>, snd (fetch_page ?c JNull (world0 [])))"
    using b h3 g3 by blast
  have 3: "loop_iter ?c ?u (world0 [])
     = (Stop, ?u\<lparr>stop_reason := Some no_payload\<rparr>, snd (fetch_page ?c (JStr ''c1'') (world0 [])))"
    using b' h4 g4 by blast
  have 4: "crawl_loop ?c ?v (world0 [])
     = (Stop, ?v\<lparr>cursor := prev_cursor ?v, backtrack_used := True, stop_reason := Some no_payload\<rparr>, ?wb)"
    using a h1 h2 g1 by blast
  have 5: "\<not> backtrack_used (fst (snd ?pb))"
    using d h5 by blast
  from 1 2 3 4 5 pb show ?thesis
    by (simp only: p_v) simp
qed

section \<open>Pagination engine: what the loop keeps\<close>

lemma same_disk_refl [simp]: "same_disk w w"
  by (simp add: same_disk_def)

lemma same_disk_trans: "same_disk w w1 \<Longrightarrow> same_disk w1 w2 \<Longrightarrow> same_disk w w2"
  by (simp add: same_disk_def)

lemma same_disk_sleep [simp]: "same_disk w (sleep n w1) = same_disk w w1"
  by (simp add: same_disk_def sleep_def)

lemma session_request_disk: "session_request req w = (out, w1) \<Longrightarrow> same_disk w w1"
  by (auto simp: session_request_def same_disk_def split: list.splits)

lemma retry_loop_disk: "retry_loop cfg req as w = (r, w') \<Longrightarrow> same_disk w w'"
proof (induction as arbitrary: w)
  case Nil
  then show ?case by simp
next
  case (Cons a as)
  obtain out w1 where sr: "session_request req w = (out, w1)"
    by (cases "session_request req w")
  note d1 = session_request_disk [OF sr]
  show ?case
  proof (cases "w' = w1")
    case True
    with d1 show ?thesis by simp
  next
    case False
    with Cons.prems sr obtain w2 where "retry_loop cfg req as w2 = (r, w')" and "same_disk w1 w2"
      by (auto simp: Let_def split: outcome.splits if_splits)
    with Cons.IH [of w2] d1 show ?thesis by (blast intro: same_disk_trans)
  qed
qed

lemma fetch_comment_replies_disk:
  "fetch_comment_replies cfg cid cur mid w = (r, w') \<Longrightarrow> same_disk w w'"
  by (auto simp: fetch_comment_replies_def request_with_retry_def
      split: option.splits if_splits result.splits dest: retry_loop_disk)

lemma fetch_comments_page_disk:
  "fetch_comments_page cfg sc mid cur w = (r, w') \<Longrightarrow> same_disk w w'"
  by (auto simp: fetch_comments_page_def request_with_retry_def
      split: option.splits if_splits result.splits dest: retry_loop_disk)

lemma fetch_attempts_disk:
  "fetch_attempts c cur as p0 w = (r, w') \<Longrightarrow> same_disk w w'"
proof (induction as arbitrary: p0 w)
  case Nil
  then show ?case by simp
next
  case (Cons a as)
  obtain r1 w1 where f: "fetch_comments_page (c_cfg c) (c_shortcode c) (c_media_id c) cur w = (r1, w1)"
    by (cases "fetch_comments_page (c_cfg c) (c_shortcode c) (c_media_id c) cur w")
  note d1 = fetch_comments_page_disk [OF f]
  show ?case
  proof (cases "w' = w1")
    case True
    with d1 show ?thesis by simp
  next
    case False
    with Cons.prems f obtain p1 w2 where "fetch_attempts c cur as p1 w2 = (r, w')" and "same_disk w1 w2"
      by (auto split: result.splits if_splits)
    with Cons.IH [of p1 w2] d1 show ?thesis by (blast intro: same_disk_trans)
  qed
qed

lemma fetch_page_disk: "fetch_page c cur w = (r, w') \<Longrightarrow> same_disk w w'"
  by (auto simp: fetch_page_def dest: fetch_attempts_disk)

lemma reply_loop_disk:
  assumes "reply_loop c pid rc lrc seen parsed w = (e, seen', parsed', w')"
  shows "same_disk w w'"
  using assms
  by (rule reply_loop_invariant [where P = "\<lambda>s p x. same_disk w x"])
     (auto dest: fetch_comment_replies_disk intro: same_disk_trans)

lemma collect_replies_disk:
  assumes "collect_replies c node parsed seen w = (e, seen', parsed', w')"
  shows "same_disk w w'"
proof -
  obtain reply_edges rp where ex: "extract_replies_from_node node = (reply_edges, rp)"
    by (cases "extract_replies_from_node node")
  show ?thesis
    using assms ex reply_loop_disk
    by (auto simp: collect_replies_def Let_def
        split: result.splits if_splits prod.splits bool.splits json.splits)
qed

lemma process_edge_disk:
  assumes "process_edge c edge v w = (fl, v', w')"
  shows "same_disk w w'"
proof (cases "collect_replies c (case edge_node edge of JDict n \<Rightarrow> n | _ \<Rightarrow> [])
          (case parse_comment_node (edge_node edge) (dict_get (c_post_info c) ''owner_id'') of Ok p \<Rightarrow> p | _ \<Rightarrow> [])
          (set_add (dict_get (case parse_comment_node (edge_node edge) (dict_get (c_post_info c) ''owner_id'') of Ok p \<Rightarrow> p | _ \<Rightarrow> []) ''id'') (seen_comment_ids v)) w")
  case (fields e seen1 parsed1 w1)
  note d = collect_replies_disk [OF fields]
  show ?thesis
    using assms fields d
    by (auto simp: process_edge_def Let_def split: result.splits if_splits option.splits)
qed

lemma process_edges_disk:
  "process_edges c edges v w = (fl, v', w') \<Longrightarrow> same_disk w w'"
proof (induction edges arbitrary: v w)
  case Nil
  then show ?case by simp
next
  case (Cons edge edges)
  obtain fl1 v1 w1 where pe: "process_edge c edge v w = (fl1, v1, w1)"
    by (cases "process_edge c edge v w")
  note d = process_edge_disk [OF pe]
  show ?case
  proof (cases fl1)
    case Next
    with Cons.prems pe have "process_edges c edges v1 w1 = (fl, v', w')" by simp
    from Cons.IH [OF this] d show ?thesis by (blast intro: same_disk_trans)
  next
    case Stop
    with Cons.prems pe d show ?thesis by simp
  next
    case (Fail x)
    with Cons.prems pe d show ?thesis by simp
  qed
qed

lemma crawl_loop_last:
  assumes run: "crawl_loop c v w = (fl, v', w')"
    and init: "P v w"
    and step: "\<And>v w v' w'. P v w \<Longrightarrow> loop_iter c v w = (Next, v', w') \<Longrightarrow> P v' w'"
  shows "\<exists>v0 w0. P v0 w0 \<and> loop_iter c v0 w0 = (fl, v', w') \<and> fl \<noteq> Next"
  using run init
proof (induction "2 * length (script w) + (if backtrack_used v then 0 else 1)"
    arbitrary: v w rule: less_induct)
  case less
  obtain fl1 v1 w1 where li: "loop_iter c v w = (fl1, v1, w1)"
    by (cases "loop_iter c v w")
  show ?case
  proof (cases "fl1 = Next")
    case True
    with less.prems(1) li have run1: "crawl_loop c v1 w1 = (fl, v', w')"
      by (subst (asm) crawl_loop.simps) simp
    have P1: "P v1 w1"
      using step [OF less.prems(2)] li True by simp
    have "2 * length (script w1) + (if backtrack_used v1 then 0 else 1)
        < 2 * length (script w) + (if backtrack_used v then 0 else 1)"
      using loop_iter_decreases li True by blast
    from less.hyps [OF this run1 P1] show ?thesis .
  next
    case False
    with less.prems(1) li have "(fl, v', w') = (fl1, v1, w1)"
      by (subst (asm) crawl_loop.simps) (simp split: flow.splits)
    with li False less.prems(2) show ?thesis by auto
  qed
qed

lemma map_of_dict_set: "map_of (dict_set kvs k v) = (map_of kvs)(k \<mapsto> v)"
  by (induction kvs) (auto simp: fun_eq_iff)

lemma dict_get_set_same [simp]: "dict_get (dict_set kvs k v) k = v"
  by (simp add: dict_get_def dict_get_default_def map_of_dict_set)

lemma dict_get_set_other [simp]: "q \<noteq> k \<Longrightarrow> dict_get (dict_set kvs k v) q = dict_get kvs q"
  by (simp add: dict_get_def dict_get_default_def map_of_dict_set)

lemma parse_comment_node_shape:
  assumes "parse_comment_node raw owner = Ok parsed"
  shows "is_id (dict_get parsed ''id'') \<and> dict_get parsed ''replies'' = JList []
    \<and> (\<exists>node. raw = JDict node
          \<and> (py_or (dict_get node ''id'') (dict_get node ''pk'') = JNull \<longrightarrow> dict_get parsed ''id'' = JNull))"
  using assms
  by (auto simp: parse_comment_node_def Let_def dict_get_def dict_get_default_def is_id_def
      split: json.splits result.splits if_splits)

lemma replies_of_append:
  "dict_get parsed ''replies'' = JList rs
     \<Longrightarrow> replies_of (append_reply parsed r) = rs @ [r]
       \<and> dict_get (append_reply parsed r) ''replies'' = JList (rs @ [r])
       \<and> dict_get (append_reply parsed r) ''id'' = dict_get parsed ''id''"
  by (simp add: append_reply_def replies_of_def)

lemma add_replies_invariant:
  assumes "add_replies owner pid edges sp = Ok sp'"
    and "P (fst sp) (snd sp)"
    and step: "\<And>seen parsed reply. P seen parsed \<Longrightarrow> is_id (dict_get reply ''id'')
        \<Longrightarrow> truthy (dict_get reply ''id'') \<Longrightarrow> \<not> py_in (dict_get reply ''id'') seen
        \<Longrightarrow> P (set_add (dict_get reply ''id'') seen) (append_reply parsed (JDict reply))"
  shows "P (fst sp') (snd sp')"
  using assms(1,2)
proof (induction edges arbitrary: sp)
  case Nil
  then show ?case by simp
next
  case (Cons edge edges)
  show ?case
  proof (cases "truthy (edge_node edge)")
    case False
    with Cons.prems have "add_replies owner pid edges sp = Ok sp'" by simp
    from Cons.IH [OF this Cons.prems(2)] show ?thesis .
  next
    case True
    with Cons.prems(1) obtain reply0 where
      p: "parse_comment_node (edge_node edge) owner = Ok reply0"
      by (auto split: result.splits)
    let ?reply = "dict_set reply0 ''parent_id'' pid"
    have idr: "dict_get ?reply ''id'' = dict_get reply0 ''id''" by simp
    have isid: "is_id (dict_get ?reply ''id'')"
      using parse_comment_node_shape [OF p] idr by simp
    show ?thesis
    proof (cases "truthy (dict_get ?reply ''id'') \<and> \<not> py_in (dict_get ?reply ''id'') (fst sp)")
      case False
      with Cons.prems(1) True p have "add_replies owner pid edges sp = Ok sp'"
        by (auto simp: Let_def)
      from Cons.IH [OF this Cons.prems(2)] show ?thesis .
    next
      case add: True
      let ?sp = "(set_add (dict_get ?reply ''id'') (fst sp), append_reply (snd sp) (JDict ?reply))"
      from Cons.prems(1) True p add have run: "add_replies owner pid edges ?sp = Ok sp'"
        by (simp add: Let_def)
      have "P (fst ?sp) (snd ?sp)"
        using step [OF Cons.prems(2) isid] add by simp
      from Cons.IH [OF run this] show ?thesis .
    qed
  qed
qed

lemma collect_replies_invariant:
  assumes run: "collect_replies c node parsed seen w = (e, seen', parsed', w')"
    and init: "P seen parsed"
    and step: "\<And>seen parsed reply. P seen parsed \<Longrightarrow> is_id (dict_get reply ''id'')
        \<Longrightarrow> truthy (dict_get reply ''id'') \<Longrightarrow> \<not> py_in (dict_get reply ''id'') seen
        \<Longrightarrow> P (set_add (dict_get reply ''id'') seen) (append_reply parsed (JDict reply))"
  shows "P seen' parsed'"
proof -
  let ?pid = "dict_get parsed ''id''"
  let ?owner = "dict_get (c_post_info c) ''owner_id''"
  have added: "\<And>edges s p s2 p2. P s p \<Longrightarrow> add_replies ?owner ?pid edges (s, p) = Ok (s2, p2) \<Longrightarrow> P s2 p2"
    using add_replies_invariant [where P = P, OF _ _ step] by fastforce
  obtain reply_edges rp where ex: "extract_replies_from_node node = (reply_edges, rp)"
    by (cases "extract_replies_from_node node")
  define inl where "inl = (if truthy reply_edges
                    then (case py_iter reply_edges of
                            Raise e \<Rightarrow> Raise e
                          | Ok edges \<Rightarrow> add_replies ?owner ?pid edges (seen, parsed))
                    else Ok (seen, parsed))"
  show ?thesis
  proof (cases inl)
    case (Raise x)
    with run ex init show ?thesis
      by (simp add: collect_replies_def Let_def inl_def)
  next
    case (Ok sp1)
    obtain seen1 parsed1 where sp1: "sp1 = (seen1, parsed1)" by (cases sp1)
    have P1: "P seen1 parsed1"
      using Ok sp1 init added
      by (auto simp: inl_def split: if_splits result.splits)
    have "(seen', parsed') = (seen1, parsed1)
        \<or> (\<exists>rc lrc. reply_loop c ?pid rc lrc seen1 parsed1 w = (e, seen', parsed', w'))"
      using run ex Ok sp1
      by (auto simp: collect_replies_def Let_def inl_def [symmetric]
          split: result.splits bool.splits json.splits)
    then show ?thesis
    proof
      assume "(seen', parsed') = (seen1, parsed1)"
      with P1 show ?thesis by simp
    next
      assume "\<exists>rc lrc. reply_loop c ?pid rc lrc seen1 parsed1 w = (e, seen', parsed', w')"
      then obtain rc lrc where rl: "reply_loop c ?pid rc lrc seen1 parsed1 w = (e, seen', parsed', w')"
        by blast
      show ?thesis
        by (rule reply_loop_invariant [where P = "\<lambda>s p x. P s p", OF rl P1]) (auto intro: added)
    qed
  qed
qed

lemma inflight_step:
  assumes "inflight ids0 n0 pid seen parsed" and "is_id (dict_get reply ''id'')"
    and "truthy (dict_get reply ''id'')" and "\<not> py_in (dict_get reply ''id'') seen"
  shows "inflight ids0 n0 pid (set_add (dict_get reply ''id'') seen) (append_reply parsed (JDict reply))"
proof -
  let ?x = "dict_get reply ''id''"
  have notin: "?x \<notin> set seen"
    using assms(2,4) by (simp add: py_in_id)
  have sa: "set_add ?x seen = seen @ [?x]"
    using assms(4) by (simp add: set_add_def)
  have rs: "dict_get parsed ''replies'' = JList (replies_of parsed)"
    using assms(1) by (simp add: inflight_def)
  note ap = replies_of_append [OF rs, of "JDict reply"]
  have ids: "comment_ids (JDict (append_reply parsed (JDict reply))) = comment_ids (JDict parsed) @ [?x]"
    using ap by (simp add: comment_ids_def comment_id_def)
  show ?thesis
    using assms(1,2,3) notin ap
    unfolding inflight_def sa ids
    by (auto simp: comment_id_def)
qed

lemma parse_timestamp_error: "parse_timestamp x = Raise e \<Longrightarrow> e \<noteq> StopIteration"
  by (auto simp: parse_timestamp_def split: json.splits if_splits)

lemma parse_comment_node_error: "parse_comment_node raw owner = Raise e \<Longrightarrow> e \<noteq> StopIteration"
  by (auto simp: parse_comment_node_def parse_user_def Let_def
      split: json.splits result.splits dest: parse_timestamp_error)

lemma py_iter_error: "py_iter x = Raise e \<Longrightarrow> e \<noteq> StopIteration"
  by (auto simp: py_iter_def split: json.splits)

lemma retry_loop_error: "retry_loop cfg req as w = (Raise e, w') \<Longrightarrow> e = KeyboardInterrupt"
proof (induction as arbitrary: w)
  case Nil
  then show ?case by simp
next
  case (Cons a as)
  obtain out w1 where sr: "session_request req w = (out, w1)"
    by (cases "session_request req w")
  from Cons.prems sr have "e = KeyboardInterrupt \<or> (\<exists>w2. retry_loop cfg req as w2 = (Raise e, w'))"
    by (auto simp: Let_def split: outcome.splits if_splits)
  with Cons.IH show ?case by blast
qed

lemma build_request_error: "build_request ep vs = Raise e \<Longrightarrow> e = ValueError ''Endpoint URL missing''"
  by (auto simp: build_request_def Let_def split: if_splits)

lemma fetch_comment_replies_error:
  "fetch_comment_replies cfg cid cur mid w = (Raise e, w') \<Longrightarrow> e \<noteq> StopIteration"
  by (auto simp: fetch_comment_replies_def request_with_retry_def
      split: option.splits if_splits result.splits dest: retry_loop_error build_request_error)

lemma fetch_comments_page_error:
  "fetch_comments_page cfg sc mid cur w = (Raise e, w') \<Longrightarrow> e \<noteq> StopIteration"
  by (auto simp: fetch_comments_page_def request_with_retry_def
      split: option.splits if_splits result.splits dest: retry_loop_error build_request_error)

lemma fetch_attempts_error:
  "fetch_attempts c cur as p0 w = (Raise e, w') \<Longrightarrow> e \<noteq> StopIteration"
proof (induction as arbitrary: p0 w)
  case Nil
  then show ?case by simp
next
  case (Cons a as)
  obtain r1 w1 where f: "fetch_comments_page (c_cfg c) (c_shortcode c) (c_media_id c) cur w = (r1, w1)"
    by (cases "fetch_comments_page (c_cfg c) (c_shortcode c) (c_media_id c) cur w")
  from Cons.prems f have "r1 = Raise e \<or> (\<exists>p1 w2. fetch_attempts c cur as p1 w2 = (Raise e, w'))"
    by (auto split: result.splits if_splits)
  with Cons.IH fetch_comments_page_error f show ?case by blast
qed

lemma suffix_connection_error: "suffix_connection payload sfx = Raise e \<Longrightarrow> e = AttributeError"
  by (auto simp: suffix_connection_def find_connection_in_data_def py_get_def py_get_default_def
      split: result.splits json.splits if_splits)

lemma extract_comment_connection_error:
  "extract_comment_connection payload = Raise e \<Longrightarrow> e = AttributeError"
  by (auto simp: extract_comment_connection_def split: option.splits result.splits
      dest: suffix_connection_error)

lemma extract_reply_connection_error:
  "extract_reply_connection payload = Raise e \<Longrightarrow> e = AttributeError"
  by (auto simp: extract_reply_connection_def split: option.splits result.splits
      dest: suffix_connection_error extract_comment_connection_error)

lemma add_replies_error: "add_replies owner pid edges sp = Raise e \<Longrightarrow> e \<noteq> StopIteration"
proof (induction edges arbitrary: sp)
  case Nil
  then show ?case by simp
next
  case (Cons edge edges)
  show ?case
    using Cons.prems Cons.IH parse_comment_node_error
    by (auto simp: Let_def split: if_splits result.splits)
qed

lemma reply_turn_error:
  "reply_turn c pid lrc payload seen parsed = (nc, Some e, seen2, parsed2) \<Longrightarrow> e \<noteq> StopIteration"
  by (auto simp: reply_turn_def Let_def split: result.splits prod.splits json.splits if_splits
      dest: extract_reply_connection_error py_iter_error add_replies_error)

lemma reply_turn_continue:
  "reply_turn c pid lrc payload seen parsed = (Some nc, e, seen2, parsed2) \<Longrightarrow> e = None"
  by (auto simp: reply_turn_def Let_def split: result.splits prod.splits json.splits if_splits)

lemma reply_loop_error:
  "reply_loop c pid rc lrc seen parsed w = (Some e, seen', parsed', w') \<Longrightarrow> e \<noteq> StopIteration"
proof (induction "length (script w)" arbitrary: rc lrc seen parsed w rule: less_induct)
  case less
  obtain r w1 where f: "fetch_comment_replies (c_cfg c) pid rc (c_media_id c) w = (r, w1)"
    by (cases "fetch_comment_replies (c_cfg c) pid rc (c_media_id c) w")
  show ?case
  proof (cases r)
    case (Raise x)
    with less.prems f have "e = x"
      by (subst (asm) reply_loop.simps) simp
    with fetch_comment_replies_error f Raise show ?thesis by blast
  next
    case (Ok payload)
    show ?thesis
    proof (cases "truthy payload")
      case False
      with less.prems f Ok show ?thesis
        by (subst (asm) reply_loop.simps) simp
    next
      case True
      obtain nc e2 seen2 parsed2 where
        rp: "reply_turn c pid lrc payload seen parsed = (nc, e2, seen2, parsed2)"
        by (cases "reply_turn c pid lrc payload seen parsed")
      show ?thesis
      proof (cases nc)
        case None
        with less.prems f Ok True rp have "e2 = Some e"
          by (subst (asm) reply_loop.simps) simp
        with reply_turn_error rp show ?thesis by blast
      next
        case (Some cur)
        have lt: "length (script w1) < length (script w)"
          using fetch_comment_replies_truthy f Ok True by blast
        have "reply_loop c pid cur cur seen2 parsed2 w1 = (Some e, seen', parsed', w')"
          using less.prems f Ok True rp Some
          by (subst (asm) reply_loop.simps) simp
        from less.hyps [OF lt this] show ?thesis .
      qed
    qed
  qed
qed

lemma want_replies_error: "want_replies cfg pid rcount n rp = Raise e \<Longrightarrow> e \<noteq> StopIteration"
  by (auto simp: want_replies_def py_gt_nat_def py_get_def py_get_default_def
      split: if_splits result.splits bool.splits json.splits)

lemma collect_replies_error:
  assumes "collect_replies c node parsed seen w = (Some e, seen', parsed', w')"
  shows "e \<noteq> StopIteration"
proof -
  obtain reply_edges rp where ex: "extract_replies_from_node node = (reply_edges, rp)"
    by (cases "extract_replies_from_node node")
  show ?thesis
    using assms ex
    by (auto simp: collect_replies_def Let_def
        split: result.splits if_splits prod.splits bool.splits json.splits
        dest: reply_loop_error want_replies_error add_replies_error py_iter_error)
qed

lemma flat_ids_snoc: "flat_ids (JList (cs @ [x])) = flat_ids (JList cs) @ comment_ids x"
  by (simp add: flat_ids_def)

lemma inflight_dedup_base:
  "inflight ids0 n0 pid seen parsed \<Longrightarrow> ids0 = flat_ids comments \<Longrightarrow> is_list comments
     \<Longrightarrow> dedup_inv comments seen"
  by (auto simp: inflight_def dedup_inv_def)

lemma inflight_dedup_snoc:
  "inflight (flat_ids (JList cs)) n0 pid seen parsed \<Longrightarrow> dedup_inv (JList (cs @ [JDict parsed])) seen"
  by (auto simp: inflight_def dedup_inv_def flat_ids_snoc is_list_def)

lemma inflight_seen:
  "inflight ids0 n0 pid seen parsed \<Longrightarrow> pid \<in> set seen"
  by (auto simp: inflight_def comment_ids_def)

lemma process_edge_result:
  assumes run: "process_edge c edge v w = (fl, v', w')"
    and inv: "dedup_inv (all_comments v) (seen_comment_ids v)"
  shows "edge_result c v fl v'"
proof (cases "truthy (edge_node edge)")
  case False
  with run show ?thesis by (auto simp: process_edge_def edge_result_def)
next
  case node: True
  let ?owner = "dict_get (c_post_info c) ''owner_id''"
  show ?thesis
  proof (cases "parse_comment_node (edge_node edge) ?owner")
    case (Raise e)
    with run node inv parse_comment_node_error [OF Raise] show ?thesis
      by (auto simp: process_edge_def edge_result_def)
  next
    case (Ok parsed0)
    let ?pid = "dict_get parsed0 ''id''"
    let ?seen = "seen_comment_ids v"
    show ?thesis
    proof (cases "py_in ?pid ?seen")
      case True
      with run node Ok show ?thesis by (auto simp: process_edge_def edge_result_def)
    next
      case new: False
      note shape = parse_comment_node_shape [OF Ok]
      have isid: "is_id ?pid" using shape by simp
      have notin: "?pid \<notin> set ?seen" using new isid by (simp add: py_in_id)
      have sa: "set_add ?pid ?seen = ?seen @ [?pid]" using new by (simp add: set_add_def)
      have r0: "replies_of parsed0 = []" using shape by (simp add: replies_of_def)
      have init: "inflight (flat_ids (all_comments v)) (length ?seen) ?pid (set_add ?pid ?seen) parsed0"
        using inv shape notin r0 unfolding sa
        by (auto simp: inflight_def dedup_inv_def comment_ids_def)
      obtain eo seen1 parsed1 w1 where
        cr: "collect_replies c (case edge_node edge of JDict n \<Rightarrow> n | _ \<Rightarrow> []) parsed0 (set_add ?pid ?seen) w
              = (eo, seen1, parsed1, w1)"
        by (cases "collect_replies c (case edge_node edge of JDict n \<Rightarrow> n | _ \<Rightarrow> []) parsed0 (set_add ?pid ?seen) w")
      have fl1: "inflight (flat_ids (all_comments v)) (length ?seen) ?pid seen1 parsed1"
        by (rule collect_replies_invariant
              [where P = "inflight (flat_ids (all_comments v)) (length ?seen) ?pid", OF cr init])
           (rule inflight_step)
      have sub': "set ?seen \<subseteq> set seen1"
        by (rule collect_replies_invariant [where P = "\<lambda>s p. set ?seen \<subseteq> set s", OF cr])
           (auto simp: set_add_def)
      have lst: "is_list (all_comments v)" using inv by (simp add: dedup_inv_def)
      then obtain cs where cs: "all_comments v = JList cs"
        by (cases "all_comments v") (auto simp: is_list_def)
      have pid1: "dict_get parsed1 ''id'' = ?pid" using fl1 by (simp add: inflight_def)
      show ?thesis
      proof (cases eo)
        case (Some e)
        have "e \<noteq> StopIteration"
          using collect_replies_error cr Some by blast
        moreover have "dedup_inv (all_comments v) seen1"
          using inflight_dedup_base [OF fl1 refl lst] .
        ultimately show ?thesis
          using run node Ok new cr Some sub'
          by (auto simp: process_edge_def edge_result_def Let_def)
      next
        case None
        let ?v1 = "v\<lparr>seen_comment_ids := seen1, all_comments := JList (cs @ [JDict parsed1])\<rparr>"
        have res: "(fl, v', w') = (if max_hit (c_max_comments c) seen1
              then (Fail StopIteration, ?v1\<lparr>stop_reason := Some max_reached\<rparr>, w1)
              else (Next, ?v1, w1))"
          using run node Ok new cr None cs
          by (simp add: process_edge_def Let_def py_append_def)
        have third: "all_comments v = JList cs \<and> all_comments v' = JList (cs @ [JDict parsed1])
            \<and> inflight (flat_ids (all_comments v)) (length ?seen) (dict_get parsed1 ''id'')
                 (seen_comment_ids v') parsed1
            \<and> \<not> py_in (dict_get parsed1 ''id'') ?seen
            \<and> set ?seen \<subseteq> set (seen_comment_ids v')
            \<and> (if max_hit (c_max_comments c) (seen_comment_ids v')
                then fl = Fail StopIteration \<and> stop_reason v' = Some max_reached
                else fl = Next \<and> stop_reason v' = stop_reason v)"
          using res cs fl1 pid1 new sub'
          by (cases "max_hit (c_max_comments c) seen1") simp_all
        show ?thesis
          unfolding edge_result_def using third by blast
      qed
    qed
  qed
qed

lemma edge_result_inv:
  "edge_result c v fl v' \<Longrightarrow> dedup_inv (all_comments v) (seen_comment_ids v)
     \<Longrightarrow> dedup_inv (all_comments v') (seen_comment_ids v')"
  by (auto simp: edge_result_def dest: inflight_dedup_snoc)

lemma process_edge_inv:
  "process_edge c edge v w = (fl, v', w') \<Longrightarrow> dedup_inv (all_comments v) (seen_comment_ids v)
     \<Longrightarrow> dedup_inv (all_comments v') (seen_comment_ids v')"
  using process_edge_result edge_result_inv by blast

lemma log_ok_refl [simp]: "log_ok cfg sc log log"
  by (simp add: log_ok_def list_all_iff)

lemma checkpoints_written_snoc:
  "checkpoints_written cfg sc (log @ [ev])
     = checkpoints_written cfg sc log
       @ (case ev of Written path doc \<Rightarrow> if path = resume_path cfg sc then [doc] else [] | Unlinked path \<Rightarrow> [])"
  by (simp add: checkpoints_written_def)

lemma process_edges_inv:
  "process_edges c edges v w = (fl, v', w') \<Longrightarrow> dedup_inv (all_comments v) (seen_comment_ids v)
     \<Longrightarrow> dedup_inv (all_comments v') (seen_comment_ids v')
       \<and> (fl = Fail StopIteration \<longrightarrow> stop_reason v' = Some max_reached)
       \<and> (fl = Next \<longrightarrow> stop_reason v' = stop_reason v)
       \<and> fl \<noteq> Stop"
proof (induction edges arbitrary: v w)
  case Nil
  then show ?case by auto
next
  case (Cons edge edges)
  obtain fl1 v1 w1 where pe: "process_edge c edge v w = (fl1, v1, w1)"
    by (cases "process_edge c edge v w")
  note er = process_edge_result [OF pe Cons.prems(2)]
  note inv1 = edge_result_inv [OF er Cons.prems(2)]
  show ?case
  proof (cases "fl1 = Next")
    case True
    with Cons.prems pe have "process_edges c edges v1 w1 = (fl, v', w')" by simp
    from Cons.IH [OF this inv1] er True show ?thesis
      by (auto simp: edge_result_def split: if_splits)
  next
    case False
    with Cons.prems(1) pe have "(fl, v', w') = (fl1, v1, w1)"
      by (simp split: flow.splits)
    with er inv1 False show ?thesis
      by (auto simp: edge_result_def split: if_splits)
  qed
qed

lemma checkpoint_written:
  assumes "checkpoint c v w = (r, w')" and "dedup_inv (all_comments v) (seen_comment_ids v)"
  shows "script w' = script w \<and> sent w' = sent w \<and> r = Ok ()
    \<and> (\<exists>doc. fs_log w' = fs_log w @ [Written (resume_path (c_cfg c) (c_shortcode c)) doc]
          \<and> checkpoint_ok doc
          \<and> map_of (files w') (resume_path (c_cfg c) (c_shortcode c)) = Some (Document doc))"
proof -
  from assms(2) obtain cs where cs: "all_comments v = JList cs"
    by (cases "all_comments v") (auto simp: dedup_inv_def is_list_def)
  show ?thesis
    using assms cs
    by (auto simp: checkpoint_def save_resume_state_def py_len_def read_clock_def write_text_def
        checkpoint_ok_def dict_get_def dict_get_default_def)
qed

lemma log_ok_checkpoint:
  assumes "checkpoint c v w = (r, w')" and "dedup_inv (all_comments v) (seen_comment_ids v)"
    and "log_ok (c_cfg c) (c_shortcode c) log0 (fs_log w)"
  shows "log_ok (c_cfg c) (c_shortcode c) log0 (fs_log w')"
  using checkpoint_written [OF assms(1,2)] assms(3)
  by (auto simp: log_ok_def checkpoints_written_snoc)

lemma page_end_inv:
  assumes "page_end c cur pinfo v w = (fl, v', w')"
    and "dedup_inv (all_comments v) (seen_comment_ids v)"
    and "log_ok (c_cfg c) (c_shortcode c) log0 (fs_log w)"
  shows "dedup_inv (all_comments v') (seen_comment_ids v')
    \<and> log_ok (c_cfg c) (c_shortcode c) log0 (fs_log w')
    \<and> stopped fl v' \<and> (fl = Next \<longrightarrow> stop_reason v' = stop_reason v)
    \<and> all_comments v' = all_comments v \<and> seen_comment_ids v' = seen_comment_ids v"
proof (cases pinfo)
  case (JDict pi)
  let ?v2 = "v\<lparr>prev_cursor := cur, cursor := dict_get pi ''end_cursor'', last_cursor := dict_get pi ''end_cursor''\<rparr>"
  have inv2: "dedup_inv (all_comments ?v2) (seen_comment_ids ?v2)"
    using assms(2) by simp
  obtain r w1 where ck: "checkpoint c ?v2 w = (r, w1)"
    by (cases "checkpoint c ?v2 w")
  note lw = log_ok_checkpoint [OF ck inv2 assms(3)]
  note cw = checkpoint_written [OF ck inv2]
  show ?thesis
    using assms JDict ck lw cw
    by (auto simp: page_end_def Let_def stopped_def split: if_splits)
qed (use assms in \<open>auto simp: page_end_def stopped_def\<close>)

lemma log_ok_same_disk:
  "same_disk w w' \<Longrightarrow> log_ok cfg sc log0 (fs_log w) \<Longrightarrow> log_ok cfg sc log0 (fs_log w')"
  by (simp add: same_disk_def)

lemma py_incr_error: "py_incr x = Raise e \<Longrightarrow> e \<noteq> StopIteration"
  by (auto simp: py_incr_def split: json.splits)

lemma page_body_inv:
  assumes run: "page_body c cur payload v w = (fl, v', w')"
    and inv: "loop_inv c log0 v w"
  shows "loop_inv c log0 v' w' \<and> stopped fl v' \<and> (fl = Next \<longrightarrow> stop_reason v' = stop_reason v)"
proof -
  let ?v0 = "v\<lparr>backtrack_used := False\<rparr>"
  have base: "loop_inv c log0 v w \<and> stopped (Fail AttributeError) v \<and> stopped (Fail TypeError) v"
    using inv by (simp add: stopped_def)
  show ?thesis
  proof (cases "py_incr (page ?v0)")
    case (Raise e)
    with run inv py_incr_error [OF Raise] show ?thesis
      by (auto simp: page_body_def Let_def loop_inv_def stopped_def)
  next
    case pg: (Ok pg)
    let ?v1 = "?v0\<lparr>page := pg\<rparr>"
    show ?thesis
    proof (cases "extract_comment_connection payload")
      case (Raise e)
      with run inv pg extract_comment_connection_error [OF Raise] show ?thesis
        by (auto simp: page_body_def Let_def loop_inv_def stopped_def)
    next
      case (Ok parts)
      obtain edges pinfo count where parts: "parts = (edges, pinfo, count)"
        by (cases parts)
      let ?v2 = "if total_count ?v1 = JNull then ?v1\<lparr>total_count := count\<rparr> else ?v1"
      have inv2: "dedup_inv (all_comments ?v2) (seen_comment_ids ?v2)"
        using inv by (simp add: loop_inv_def)
      have sr2: "stop_reason ?v2 = stop_reason v" by simp
      show ?thesis
      proof (cases "py_iter edges")
        case (Raise e)
        with run inv pg Ok parts py_iter_error [OF Raise] show ?thesis
          by (auto simp: page_body_def Let_def loop_inv_def stopped_def)
      next
        case it: (Ok edge_list)
        obtain fl3 v3 w3 where pe: "process_edges c edge_list ?v2 w = (fl3, v3, w3)"
          by (cases "process_edges c edge_list ?v2 w")
        note pi = process_edges_inv [OF pe inv2]
        note pd = process_edges_disk [OF pe]
        have log3: "log_ok (c_cfg c) (c_shortcode c) log0 (fs_log w3)"
          using log_ok_same_disk [OF pd] inv by (simp add: loop_inv_def)
        show ?thesis
        proof (cases "fl3 = Next")
          case True
          with run pg Ok parts it pe have en: "page_end c cur pinfo v3 w3 = (fl, v', w')"
            by (simp add: page_body_def Let_def)
          from page_end_inv [OF en _ log3] pi True sr2 show ?thesis
            by (simp add: loop_inv_def)
        next
          case False
          with run pg Ok parts it pe have "(fl, v', w') = (fl3, v3, w3)"
            by (simp add: page_body_def Let_def split: flow.splits)
          with pi log3 False show ?thesis
            by (auto simp: loop_inv_def stopped_def)
        qed
      qed
    qed
  qed
qed

lemma loop_iter_inv:
  assumes run: "loop_iter c v w = (fl, v', w')"
    and inv: "loop_inv c log0 v w"
  shows "loop_inv c log0 v' w' \<and> stopped fl v' \<and> (fl = Next \<longrightarrow> stop_reason v' = stop_reason v)"
proof -
  obtain r w1 where f: "fetch_page c (cursor v) w = (r, w1)"
    by (cases "fetch_page c (cursor v) w")
  have inv1: "loop_inv c log0 v w1"
    using inv log_ok_same_disk [OF fetch_page_disk [OF f]] by (simp add: loop_inv_def)
  show ?thesis
  proof (cases r)
    case (Raise e)
    have "e \<noteq> StopIteration"
      using f Raise fetch_attempts_error by (auto simp: fetch_page_def)
    with run f Raise inv1 show ?thesis
      by (auto simp: loop_iter_def stopped_def)
  next
    case (Ok payload)
    show ?thesis
    proof (cases "truthy payload")
      case False
      with run f Ok inv1 show ?thesis
        by (auto simp: loop_iter_def Let_def stopped_def loop_inv_def split: if_splits)
    next
      case True
      with run f Ok have "page_body c (cursor v) payload v w1 = (fl, v', w')"
        by (simp add: loop_iter_def Let_def)
      from page_body_inv [OF this inv1] show ?thesis .
    qed
  qed
qed

lemma crawl_loop_inv:
  assumes run: "crawl_loop c v w = (fl, v', w')"
    and inv: "loop_inv c log0 v w"
  shows "loop_inv c log0 v' w' \<and> stopped fl v' \<and> fl \<noteq> Next"
proof -
  have "\<exists>v0 w0. loop_inv c log0 v0 w0 \<and> loop_iter c v0 w0 = (fl, v', w') \<and> fl \<noteq> Next"
    by (rule crawl_loop_last [where P = "loop_inv c log0", OF run inv]) (use loop_iter_inv in blast)
  then show ?thesis
    using loop_iter_inv by blast
qed

lemma run_loop_inv:
  assumes run: "run_loop c v w = (Ok v', w')"
    and inv: "loop_inv c log0 v w"
  shows "loop_inv c log0 v' w' \<and> stop_reason v' \<noteq> None"
proof -
  obtain fl v1 w1 where cl: "crawl_loop c v w = (fl, v1, w1)"
    by (cases "crawl_loop c v w")
  note ci = crawl_loop_inv [OF cl inv]
  show ?thesis
  proof (cases fl)
    case Next
    with ci show ?thesis by simp
  next
    case Stop
    with run cl ci show ?thesis
      by (auto simp: run_loop_def stopped_def)
  next
    case (Fail e)
    with run cl ci show ?thesis
      by (cases e) (auto simp: run_loop_def stopped_def loop_inv_def)
  qed
qed

lemma run_loop_raise:
  assumes "run_loop c v w = (Raise e, w')"
  shows "\<exists>v1. crawl_loop c v w = (Fail e, v1, w') \<and> e \<noteq> KeyboardInterrupt \<and> e \<noteq> StopIteration"
proof -
  obtain fl v1 w1 where cl: "crawl_loop c v w = (fl, v1, w1)"
    by (cases "crawl_loop c v w")
  show ?thesis
  proof (cases fl)
    case (Fail x)
    with assms cl show ?thesis
      by (cases x) (auto simp: run_loop_def)
  qed (use assms cl in \<open>auto simp: run_loop_def\<close>)
qed

section \<open>Finalization and the start of the crawl\<close>

lemma file_stamp_not_resume: "file_stamp t \<noteq> ''resume''"
proof -
  have "CHR ''_'' \<in> set (file_stamp t)"
    by (cases "civil_from_days (fst t div 86400)") (simp add: file_stamp_def Let_def)
  moreover have "CHR ''_'' \<notin> set ''resume''" by simp
  ultimately show ?thesis by metis
qed

lemma output_path_not_resume:
  "data_dir cfg @ ''/ig_comments/'' @ sc @ ''_'' @ file_stamp t @ ''.json'' \<noteq> resume_path cfg sc"
proof
  assume "data_dir cfg @ ''/ig_comments/'' @ sc @ ''_'' @ file_stamp t @ ''.json'' = resume_path cfg sc"
  then have "file_stamp t @ ''.json'' = ''resume'' @ ''.json''"
    by (simp add: resume_path_def)
  then have "file_stamp t = ''resume''"
    by (simp only: append_same_eq)
  with file_stamp_not_resume show False by blast
qed

lemma save_output_effect:
  assumes "save_output cfg sc doc w = (out, w')"
  shows "out \<noteq> resume_path cfg sc" and "script w' = script w" and "sent w' = sent w"
    and "fs_log w' = fs_log w @ [Written out doc]"
    and "map_of (files w') out = Some (Document doc)"
    and "map_of (files w') (resume_path cfg sc) = map_of (files w) (resume_path cfg sc)"
    and "checkpoints_written cfg sc (fs_log w') = checkpoints_written cfg sc (fs_log w)"
proof -
  obtain now w1 where rc: "read_clock w = (now, w1)" by (cases "read_clock w")
  have w1: "script w1 = script w" "sent w1 = sent w" "fs_log w1 = fs_log w" "files w1 = files w"
    using rc by (auto simp: read_clock_def)
  define path where "path = data_dir cfg @ ''/ig_comments/'' @ sc @ ''_'' @ file_stamp now @ ''.json''"
  have ne: "path \<noteq> resume_path cfg sc"
    unfolding path_def by (rule output_path_not_resume)
  have out: "out = path" and w': "w' = write_text path doc w1"
    using assms rc by (auto simp: save_output_def Let_def path_def)
  show "out \<noteq> resume_path cfg sc" and "script w' = script w" and "sent w' = sent w"
    and "fs_log w' = fs_log w @ [Written out doc]"
    and "map_of (files w') out = Some (Document doc)"
    and "map_of (files w') (resume_path cfg sc) = map_of (files w) (resume_path cfg sc)"
    and "checkpoints_written cfg sc (fs_log w') = checkpoints_written cfg sc (fs_log w)"
    using ne w1 unfolding out w'
    by (simp_all add: write_text_def checkpoints_written_snoc map_of_file_put map_of_file_put_other)
qed

lemma clear_resume_state_effect:
  "script (clear_resume_state cfg sc w) = script w \<and> sent (clear_resume_state cfg sc w) = sent w
   \<and> map_of (files (clear_resume_state cfg sc w)) (resume_path cfg sc) = None
   \<and> (q \<noteq> resume_path cfg sc
        \<longrightarrow> map_of (files (clear_resume_state cfg sc w)) q = map_of (files w) q)
   \<and> set (fs_log w) \<subseteq> set (fs_log (clear_resume_state cfg sc w))
   \<and> checkpoints_written cfg sc (fs_log (clear_resume_state cfg sc w))
       = checkpoints_written cfg sc (fs_log w)"
  by (auto simp: clear_resume_state_def unlink_def path_exists_def checkpoints_written_snoc
      map_of_unlinked_other)

lemma checkpoint_effect:
  assumes "checkpoint c v w = (r, w')" and "is_list (all_comments v)"
  shows "r = Ok () \<and> script w' = script w \<and> sent w' = sent w
    \<and> (\<exists>stamp. fs_log w' = fs_log w @ [Written (resume_path (c_cfg c) (c_shortcode c))
          (JDict [(''post'', JDict (c_post_info c)),
                  (''comment_count'', JInt (int (length (case all_comments v of JList cs \<Rightarrow> cs | _ \<Rightarrow> [])))),
                  (''comments'', all_comments v),
                  (''seen_comment_ids'', JList (seen_comment_ids v)),
                  (''cursor'', cursor v),
                  (''last_cursor'', last_cursor v),
                  (''pages'', page v),
                  (''expected_comment_count'', total_count v),
                  (''stop_reason'', reason_json (stop_reason v)),
                  (''complete'', JBool False),
                  (''updated_at'', JStr stamp)])]
        \<and> files w' = file_put (files w) (resume_path (c_cfg c) (c_shortcode c))
            (Document (JDict [(''post'', JDict (c_post_info c)),
                  (''comment_count'', JInt (int (length (case all_comments v of JList cs \<Rightarrow> cs | _ \<Rightarrow> [])))),
                  (''comments'', all_comments v),
                  (''seen_comment_ids'', JList (seen_comment_ids v)),
                  (''cursor'', cursor v),
                  (''last_cursor'', last_cursor v),
                  (''pages'', page v),
                  (''expected_comment_count'', total_count v),
                  (''stop_reason'', reason_json (stop_reason v)),
                  (''complete'', JBool False),
                  (''updated_at'', JStr stamp)])))"
proof -
  from assms(2) obtain cs where cs: "all_comments v = JList cs"
    by (cases "all_comments v") (auto simp: is_list_def)
  show ?thesis
    using assms(1) cs
    by (auto simp: checkpoint_def save_resume_state_def py_len_def read_clock_def write_text_def)
qed

lemma finalize_effect:
  assumes fin: "finalize c v w = (r, w')" and lst: "is_list (all_comments v)"
  shows "\<exists>out result.
      r = Ok (JDict (result @ [(''output_path'', JStr out)]))
    \<and> dict_get result ''comments'' = all_comments v
    \<and> dict_get (result @ [(''output_path'', JStr out)]) ''comments'' = all_comments v
    \<and> dict_get result ''stop_reason'' = reason_json (stop_reason v)
    \<and> dict_get result ''pages'' = page v
    \<and> dict_get result ''post'' = JDict (c_post_info c)
    \<and> out \<noteq> resume_path (c_cfg c) (c_shortcode c)
    \<and> Written out (JDict result) \<in> set (fs_log w')
    \<and> map_of (files w') out = Some (Document (JDict result))
    \<and> script w' = script w \<and> sent w' = sent w
    \<and> (if stop_reason v = Some no_more_pages
        then map_of (files w') (resume_path (c_cfg c) (c_shortcode c)) = None
          \<and> checkpoints_written (c_cfg c) (c_shortcode c) (fs_log w')
              = checkpoints_written (c_cfg c) (c_shortcode c) (fs_log w)
        else (\<exists>doc. map_of (files w') (resume_path (c_cfg c) (c_shortcode c)) = Some (Document (JDict doc))
          \<and> checkpoints_written (c_cfg c) (c_shortcode c) (fs_log w')
              = checkpoints_written (c_cfg c) (c_shortcode c) (fs_log w) @ [JDict doc]
          \<and> dict_get doc ''complete'' = JBool False
          \<and> dict_get doc ''comments'' = all_comments v
          \<and> dict_get doc ''seen_comment_ids'' = JList (seen_comment_ids v)
          \<and> dict_get doc ''cursor'' = cursor v
          \<and> dict_get doc ''last_cursor'' = last_cursor v
          \<and> dict_get doc ''pages'' = page v
          \<and> dict_get doc ''expected_comment_count'' = total_count v
          \<and> dict_get doc ''stop_reason'' = reason_json (stop_reason v)
          \<and> dict_get doc ''post'' = JDict (c_post_info c)))"
proof -
  from lst obtain cs where cs: "all_comments v = JList cs"
    by (cases "all_comments v") (auto simp: is_list_def)
  obtain now w1 where rc: "read_clock w = (now, w1)" by (cases "read_clock w")
  have w1: "script w1 = script w" "sent w1 = sent w" "fs_log w1 = fs_log w" "files w1 = files w"
    using rc by (auto simp: read_clock_def)
  define result where "result =
     [(''post'', JDict (c_post_info c)),
      (''comment_count'', JInt (int (length cs))),
      (''expected_comment_count'', total_count v),
      (''fetched_at'', JStr (isoformat now @ ''Z'')),
      (''comments'', all_comments v),
      (''pages'', page v),
      (''stop_reason'', reason_json (stop_reason v))]"
  obtain out w2 where so: "save_output (c_cfg c) (c_shortcode c) (JDict result) w1 = (out, w2)"
    by (cases "save_output (c_cfg c) (c_shortcode c) (JDict result) w1")
  note eff = save_output_effect [OF so]
  have r1: "dict_set result ''output_path'' (JStr out) = result @ [(''output_path'', JStr out)]"
    by (simp add: result_def)
  have fields: "dict_get result ''comments'' = all_comments v"
    "dict_get (result @ [(''output_path'', JStr out)]) ''comments'' = all_comments v"
    "dict_get result ''stop_reason'' = reason_json (stop_reason v)"
    "dict_get result ''pages'' = page v"
    "dict_get result ''post'' = JDict (c_post_info c)"
    by (simp_all add: result_def dict_get_def dict_get_default_def)
  have written: "Written out (JDict result) \<in> set (fs_log w2)"
    using eff by simp
  show ?thesis
  proof (cases "stop_reason v = Some no_more_pages")
    case True
    then have fin': "r = Ok (JDict (result @ [(''output_path'', JStr out)]))"
        "w' = clear_resume_state (c_cfg c) (c_shortcode c) w2"
      using fin cs rc so r1
      by (auto simp: finalize_def py_len_def crawl_complete_def Let_def result_def)
    note ce = clear_resume_state_effect [of "c_cfg c" "c_shortcode c" w2 out]
    show ?thesis
      apply (rule exI [of _ out], rule exI [of _ result])
      using True fin' fields eff w1 ce written by auto
  next
    case False
    obtain u w3 where ck: "checkpoint c v w2 = (u, w3)" by (cases "checkpoint c v w2")
    note ke = checkpoint_effect [OF ck lst]
    from False have fin': "r = Ok (JDict (result @ [(''output_path'', JStr out)]))" "w' = w3"
      using fin cs rc so r1 ck ke
      by (auto simp: finalize_def py_len_def crawl_complete_def Let_def result_def)
    from ke obtain stamp doc where
      doc: "doc = [(''post'', JDict (c_post_info c)),
                  (''comment_count'', JInt (int (length (case all_comments v of JList cs \<Rightarrow> cs | _ \<Rightarrow> [])))),
                  (''comments'', all_comments v),
                  (''seen_comment_ids'', JList (seen_comment_ids v)),
                  (''cursor'', cursor v),
                  (''last_cursor'', last_cursor v),
                  (''pages'', page v),
                  (''expected_comment_count'', total_count v),
                  (''stop_reason'', reason_json (stop_reason v)),
                  (''complete'', JBool False),
                  (''updated_at'', JStr stamp)]"
      and log3: "fs_log w3 = fs_log w2 @ [Written (resume_path (c_cfg c) (c_shortcode c)) (JDict doc)]"
      and files3: "files w3 = file_put (files w2) (resume_path (c_cfg c) (c_shortcode c)) (Document (JDict doc))"
      by blast
    have dfields: "dict_get doc ''complete'' = JBool False"
          "dict_get doc ''comments'' = all_comments v"
          "dict_get doc ''seen_comment_ids'' = JList (seen_comment_ids v)"
          "dict_get doc ''cursor'' = cursor v"
          "dict_get doc ''last_cursor'' = last_cursor v"
          "dict_get doc ''pages'' = page v"
          "dict_get doc ''expected_comment_count'' = total_count v"
          "dict_get doc ''stop_reason'' = reason_json (stop_reason v)"
          "dict_get doc ''post'' = JDict (c_post_info c)"
      by (simp_all add: doc dict_get_def dict_get_default_def)
    have a: "map_of (files w3) (resume_path (c_cfg c) (c_shortcode c)) = Some (Document (JDict doc))"
      by (simp add: files3)
    have b: "checkpoints_written (c_cfg c) (c_shortcode c) (fs_log w3)
              = checkpoints_written (c_cfg c) (c_shortcode c) (fs_log w) @ [JDict doc]"
    proof -
      have "checkpoints_written (c_cfg c) (c_shortcode c) (fs_log w2)
              = checkpoints_written (c_cfg c) (c_shortcode c) (fs_log w)"
        using eff(7) w1 by simp
      moreover have "checkpoints_written (c_cfg c) (c_shortcode c) (fs_log w3)
              = checkpoints_written (c_cfg c) (c_shortcode c) (fs_log w2) @ [JDict doc]"
        by (simp add: log3 checkpoints_written_snoc)
      ultimately show ?thesis by simp
    qed
    have c': "map_of (files w3) out = Some (Document (JDict result))"
      using eff by (simp add: files3 map_of_file_put_other)
    have d: "Written out (JDict result) \<in> set (fs_log w3)"
      using written by (simp add: log3)
    have e: "script w3 = script w" "sent w3 = sent w"
      using ke eff w1 by auto
    show ?thesis
      apply (rule exI [of _ out], rule exI [of _ result])
      using False fin' fields eff a b c' d e dfields by auto
  qed
qed

lemma resolve_media_id_from_html_disk:
  "resolve_media_id_from_html sc w = (r, w') \<Longrightarrow> same_disk w w'"
  by (auto simp: resolve_media_id_from_html_def split: prod.splits outcome.splits if_splits
      dest: session_request_disk)

lemma request_with_retry_disk:
  "request_with_retry cfg req w = (r, w') \<Longrightarrow> same_disk w w'"
  by (auto simp: request_with_retry_def dest: retry_loop_disk)

lemma resolve_media_id_disk:
  assumes run: "resolve_media_id cfg sc w = (r, w')"
  shows "same_disk w w'"
proof -
  define fallback where "fallback =
     (if truthy (shortcode_to_media_id sc)
      then (Ok (shortcode_to_media_id sc, [(''media_id'', shortcode_to_media_id sc)]), w)
      else case resolve_media_id_from_html sc w of
             (Raise e, w1) \<Rightarrow> (Raise e, w1)
           | (Ok media_id, w1) \<Rightarrow> (Ok (media_id, [(''media_id'', media_id)]), w1))"
  have fb: "same_disk w (snd fallback)"
  proof (cases "truthy (shortcode_to_media_id sc)")
    case True
    then show ?thesis by (simp add: fallback_def)
  next
    case False
    obtain r1 w1 where h: "resolve_media_id_from_html sc w = (r1, w1)"
      by (cases "resolve_media_id_from_html sc w")
    from resolve_media_id_from_html_disk [OF h] False h show ?thesis
      by (cases r1) (simp_all add: fallback_def)
  qed
  show ?thesis
  proof (cases "endpoints_post_by_shortcode cfg")
    case None
    with run have "(r, w') = fallback"
      by (simp add: resolve_media_id_def Let_def fallback_def)
    with fb show ?thesis by (metis snd_conv)
  next
    case (Some ep)
    show ?thesis
    proof (cases "placeholder_doc_id ep")
      case True
      with run Some have "(r, w') = fallback"
        by (simp add: resolve_media_id_def Let_def fallback_def)
      with fb show ?thesis by (metis snd_conv)
    next
      case False
      show ?thesis
      proof (cases "build_request ep (render_variables ep
                          [(''shortcode'', JStr sc), (''media_id'', JNull),
                           (''cursor'', JNull), (''comment_id'', JNull)])")
        case (Raise e)
        with run Some False have "w' = w"
          by (simp add: resolve_media_id_def Let_def)
        then show ?thesis by simp
      next
        case (Ok req)
        obtain r1 w1 where rq: "request_with_retry cfg req w = (r1, w1)"
          by (cases "request_with_retry cfg req w")
        note d = request_with_retry_disk [OF rq]
        from run Some False Ok rq have "w' = w1"
          by (cases r1) (auto simp: resolve_media_id_def Let_def split: if_splits)
        with d show ?thesis by simp
      qed
    qed
  qed
qed

lemma fold_set_add_distinct:
  "list_all is_id xs \<Longrightarrow> distinct acc \<Longrightarrow> list_all is_id acc
     \<Longrightarrow> distinct (fold set_add xs acc) \<and> list_all is_id (fold set_add xs acc)"
proof (induction xs arbitrary: acc)
  case Nil
  then show ?case by simp
next
  case (Cons x xs)
  then have "distinct (set_add x acc) \<and> list_all is_id (set_add x acc)"
    by (auto simp: set_add_def py_in_id)
  with Cons show ?case by simp
qed

lemma py_set_checkpoint:
  assumes "list_all is_id xs"
  shows "\<exists>s. py_set (JList xs) = Ok s \<and> set s = set xs \<and> distinct s \<and> list_all is_id s"
proof -
  have h: "list_all hashable xs"
    using assms by (auto simp: list_all_iff hashable_id)
  have "py_iter (JList xs) = Ok xs" by (simp add: py_iter_def)
  with h have "py_set (JList xs) = Ok (fold set_add xs [])" by (simp add: py_set_def)
  with fold_set_add_ids [OF assms, of "[]"] fold_set_add_distinct [OF assms, of "[]"]
  show ?thesis by simp
qed

lemma resumed_vars_inv:
  assumes ok: "checkpoint_ok (JDict rs)"
  shows "\<exists>v. resumed_vars rs = Ok v \<and> dedup_inv (all_comments v) (seen_comment_ids v)"
proof -
  from ok obtain seen where seen: "dict_get rs ''seen_comment_ids'' = JList seen"
    and inv: "dedup_inv (dict_get rs ''comments'') seen"
    by (auto simp: checkpoint_ok_def split: json.splits)
  from seen have s1: "dict_get_default rs ''seen_comment_ids'' (JList []) = JList seen"
    by (auto simp: dict_get_def dict_get_default_def split: option.splits)
  from inv have "is_list (dict_get rs ''comments'')" by (simp add: dedup_inv_def)
  then have c1: "dict_get_default rs ''comments'' (JList []) = dict_get rs ''comments''"
    by (auto simp: dict_get_def dict_get_default_def is_list_def split: option.splits)
  from inv have ids: "list_all is_id seen" by (simp add: dedup_inv_def)
  from py_set_checkpoint [OF ids] obtain s where s: "py_set (JList seen) = Ok s"
    "set s = set seen" "distinct s" "list_all is_id s" by blast
  have "dedup_inv (dict_get rs ''comments'') s"
    using inv s by (simp add: dedup_inv_def)
  then show ?thesis
    using s1 c1 s(1) by (simp add: resumed_vars_def fresh_vars_def)
qed

lemma crawl_from_inv:
  assumes run: "crawl_from c v w = (r, w')"
    and inv: "loop_inv c log0 v w"
  shows "log_ok (c_cfg c) (c_shortcode c) log0 (fs_log w')
    \<and> (\<forall>result. r = Ok (JDict result) \<longrightarrow> distinct (flat_ids (dict_get result ''comments'')))"
proof -
  obtain r1 w1 where rl: "run_loop c v w = (r1, w1)" by (cases "run_loop c v w")
  show ?thesis
  proof (cases r1)
    case (Raise e)
    from run_loop_raise [OF rl [unfolded Raise]] obtain v1 where
      cl: "crawl_loop c v w = (Fail e, v1, w1)" by blast
    from crawl_loop_inv [OF cl inv] have "loop_inv c log0 v1 w1" by blast
    moreover from run rl Raise have "r = Raise e" "w' = w1" by (auto simp: crawl_from_def)
    ultimately show ?thesis by (simp add: loop_inv_def)
  next
    case (Ok v1)
    from run_loop_inv [OF rl [unfolded Ok] inv] have li: "loop_inv c log0 v1 w1" by blast
    then have d: "dedup_inv (all_comments v1) (seen_comment_ids v1)"
      and l: "log_ok (c_cfg c) (c_shortcode c) log0 (fs_log w1)"
      by (simp_all add: loop_inv_def)
    from d have lst: "is_list (all_comments v1)" by (simp add: dedup_inv_def)
    from run rl Ok have fin: "finalize c v1 w1 = (r, w')" by (simp add: crawl_from_def)
    from finalize_effect [OF fin lst] obtain out result where
      r: "r = Ok (JDict (result @ [(''output_path'', JStr out)]))"
      and cm: "dict_get (result @ [(''output_path'', JStr out)]) ''comments'' = all_comments v1"
      and ck: "if stop_reason v1 = Some no_more_pages
        then checkpoints_written (c_cfg c) (c_shortcode c) (fs_log w')
              = checkpoints_written (c_cfg c) (c_shortcode c) (fs_log w1)
        else (\<exists>doc. checkpoints_written (c_cfg c) (c_shortcode c) (fs_log w')
              = checkpoints_written (c_cfg c) (c_shortcode c) (fs_log w1) @ [JDict doc]
          \<and> dict_get doc ''comments'' = all_comments v1
          \<and> dict_get doc ''seen_comment_ids'' = JList (seen_comment_ids v1))"
      by (auto split: if_splits)
    have "log_ok (c_cfg c) (c_shortcode c) log0 (fs_log w')"
    proof (cases "stop_reason v1 = Some no_more_pages")
      case True
      with ck l show ?thesis by (simp add: log_ok_def)
    next
      case False
      with ck obtain doc where
        cw: "checkpoints_written (c_cfg c) (c_shortcode c) (fs_log w')
              = checkpoints_written (c_cfg c) (c_shortcode c) (fs_log w1) @ [JDict doc]"
        and dc: "dict_get doc ''comments'' = all_comments v1"
        and ds: "dict_get doc ''seen_comment_ids'' = JList (seen_comment_ids v1)"
        by auto
      have "checkpoint_ok (JDict doc)"
        using d dc ds by (simp add: checkpoint_ok_def)
      with l cw show ?thesis by (simp add: log_ok_def)
    qed
    moreover have "distinct (flat_ids (dict_get (result @ [(''output_path'', JStr out)]) ''comments''))"
      using cm d by (simp add: dedup_inv_def)
    ultimately show ?thesis using r by simp
  qed
qed

end
